theory Spec2Isabelle
  imports Main
begin

section \<open>Text\<close>

text \<open>
  A Python \<open>str\<close> is modelled as a \<open>string\<close> whose characters are the code points
  below 256. The functions of this section are the library functions that
  \<open>main.py\<close> calls on text, written out on that range.
\<close>

definition newline :: char where
  "newline = CHR 0x0A"

definition space :: char where
  "space = CHR 0x20"

definition dquote :: char where
  "dquote = CHR 0x22"

definition backslash :: char where
  "backslash = CHR 0x5C"

text \<open>\<open>str.isspace\<close> on one character: the white space below code point 256.\<close>

definition is_space :: "char \<Rightarrow> bool" where
  "is_space c = (of_char c \<in> {0x09, 0x0A, 0x0B, 0x0C, 0x0D, 0x1C, 0x1D, 0x1E, 0x1F, 0x20, 0x85, 0xA0 :: nat})"

text \<open>\<open>s.strip()\<close>: white space removed at both ends.\<close>

definition lstrip :: "string \<Rightarrow> string" where
  "lstrip s = dropWhile is_space s"

definition rstrip :: "string \<Rightarrow> string" where
  "rstrip s = rev (dropWhile is_space (rev s))"

definition strip :: "string \<Rightarrow> string" where
  "strip s = rstrip (lstrip s)"

text \<open>\<open>s.split(sep)\<close> for a separator of one character: always at least one part.\<close>

fun split_on :: "char \<Rightarrow> string \<Rightarrow> string list" where
  "split_on sep [] = [[]]"
| "split_on sep (c # cs) =
     (if c = sep then [] # split_on sep cs
      else (case split_on sep cs of
              [] \<Rightarrow> [[c]]
            | p # ps \<Rightarrow> (c # p) # ps))"

text \<open>\<open>s.split(sep, 1)\<close>: cut at the first separator only.\<close>

definition split_once :: "char \<Rightarrow> string \<Rightarrow> string list" where
  "split_once sep s =
     (if sep \<in> set s then [takeWhile (\<lambda>c. c \<noteq> sep) s, tl (dropWhile (\<lambda>c. c \<noteq> sep) s)]
      else [s])"

text \<open>\<open>s.split()\<close>: the maximal runs of characters that are not white space.\<close>

function split_ws :: "string \<Rightarrow> string list" where
  "split_ws s =
     (case dropWhile is_space s of
        [] \<Rightarrow> []
      | c # cs \<Rightarrow> (c # takeWhile (\<lambda>x. \<not> is_space x) cs) # split_ws (dropWhile (\<lambda>x. \<not> is_space x) cs))"
  by pat_completeness auto
termination
proof (relation "measure length")
  show "wf (measure length)" by simp
next
  fix s :: string and c cs
  assume h: "dropWhile is_space s = c # cs"
  have "length (dropWhile (\<lambda>x. \<not> is_space x) cs) \<le> length cs"
    by (rule length_dropWhile_le)
  moreover have "length (c # cs) \<le> length s"
    using length_dropWhile_le [of is_space s] h by simp
  ultimately show "(dropWhile (\<lambda>x. \<not> is_space x) cs, s) \<in> measure length"
    by simp
qed

declare split_ws.simps [simp del]

text \<open>\<open>sep.join(parts)\<close>.\<close>

fun join :: "string \<Rightarrow> string list \<Rightarrow> string" where
  "join sep [] = []"
| "join sep [p] = p"
| "join sep (p # q # ps) = p @ sep @ join sep (q # ps)"

section \<open>Regular expressions\<close>

text \<open>
  Letter case as \<open>re.IGNORECASE\<close> folds it on code points below 256: the upper-case
  letters \<open>A\<close> to \<open>Z\<close> and \<open>0xC0\<close> to \<open>0xDE\<close> (without the multiplication sign
  \<open>0xD7\<close>) are 32 below their lower-case forms.
\<close>

definition lower_char :: "char \<Rightarrow> char" where
  "lower_char c =
     (let n = (of_char c :: nat)
      in if (0x41 \<le> n \<and> n \<le> 0x5A) \<or> (0xC0 \<le> n \<and> n \<le> 0xDE \<and> n \<noteq> 0xD7)
         then char_of (n + 32) else c)"

definition lower :: "string \<Rightarrow> string" where
  "lower s = map lower_char s"

text \<open>The escaped pattern \<open>re.escape(old)\<close> matches at the front of \<open>s\<close>.\<close>

definition match_here :: "string \<Rightarrow> string \<Rightarrow> bool" where
  "match_here old s = (length old \<le> length s \<and> lower (take (length old) s) = lower old)"

text \<open>
  The replacement argument of \<open>re.sub\<close> is a template. Its backslash escapes are
  parsed before any matching is done; the pattern \<open>re.escape(old)\<close> has no group
  but group 0, the whole match. \<open>None\<close> is the exception that the parser raises
  (\<open>re.error\<close>, or \<open>IndexError\<close> for an unknown group name).
\<close>

datatype piece = Literal char | WholeMatch

definition between :: "nat \<Rightarrow> char \<Rightarrow> nat \<Rightarrow> bool" where
  "between lo c hi = (lo \<le> of_char c \<and> (of_char c :: nat) \<le> hi)"

definition is_octdigit :: "char \<Rightarrow> bool" where
  "is_octdigit c = between 0x30 c 0x37"

definition is_digit :: "char \<Rightarrow> bool" where
  "is_digit c = between 0x30 c 0x39"

definition is_ascii_letter :: "char \<Rightarrow> bool" where
  "is_ascii_letter c = (between 0x61 c 0x7A \<or> between 0x41 c 0x5A)"

definition digit_val :: "char \<Rightarrow> nat" where
  "digit_val c = of_char c - 0x30"

definition octal_val :: "string \<Rightarrow> nat" where
  "octal_val ds = foldl (\<lambda>n d. 8 * n + digit_val d) 0 ds"

text \<open>The table \<open>ESCAPES\<close> of the parser, for the character after the backslash.\<close>

definition escapes :: "char \<Rightarrow> char option" where
  "escapes c =
     (if c = CHR ''a'' then Some (CHR 0x07)
      else if c = CHR ''b'' then Some (CHR 0x08)
      else if c = CHR ''f'' then Some (CHR 0x0C)
      else if c = CHR ''n'' then Some (CHR 0x0A)
      else if c = CHR ''r'' then Some (CHR 0x0D)
      else if c = CHR ''t'' then Some (CHR 0x09)
      else if c = CHR ''v'' then Some (CHR 0x0B)
      else if c = backslash then Some backslash
      else None)"

function parse_template :: "string \<Rightarrow> piece list option" where
  "parse_template [] = Some []"
| "parse_template (c # cs) =
     (if c \<noteq> backslash then map_option (Cons (Literal c)) (parse_template cs)
      else (case cs of
        [] \<Rightarrow> None
      | e # rest \<Rightarrow>
          if e = CHR ''g'' then
            (case rest of
               [] \<Rightarrow> None
             | b # rest' \<Rightarrow>
                 if b \<noteq> CHR ''<'' then None
                 else let name = takeWhile (\<lambda>x. x \<noteq> CHR ''>'') rest';
                          after = dropWhile (\<lambda>x. x \<noteq> CHR ''>'') rest'
                      in if after = [] \<or> name = [] then None
                         else if list_all (\<lambda>x. x = CHR ''0'') name
                         then map_option (Cons WholeMatch) (parse_template (tl after))
                         else None)
          else if e = CHR ''0'' then
            (let ds = takeWhile is_octdigit (take 2 rest)
             in map_option (Cons (Literal (char_of (octal_val ds mod 256))))
                  (parse_template (drop (length ds) rest)))
          else if is_digit e then
            (case rest of
               d2 # d3 # rest' \<Rightarrow>
                 if is_octdigit e \<and> is_octdigit d2 \<and> is_octdigit d3
                 then (if octal_val [e, d2, d3] > 255 then None
                       else map_option (Cons (Literal (char_of (octal_val [e, d2, d3]))))
                              (parse_template rest'))
                 else None
             | _ \<Rightarrow> None)
          else (case escapes e of
                  Some x \<Rightarrow> map_option (Cons (Literal x)) (parse_template rest)
                | None \<Rightarrow>
                    if is_ascii_letter e then None
                    else map_option (\<lambda>ps. Literal backslash # Literal e # ps)
                           (parse_template rest))))"
  by pat_completeness auto
termination
proof -
  have tl_le: "length (dropWhile P xs) - Suc 0 < Suc (Suc (Suc (length xs)))" for P and xs :: string
    using length_dropWhile_le [of P xs] by simp
  show ?thesis
    by (relation "measure length") (auto simp: tl_le)
qed

fun expand :: "piece list \<Rightarrow> string \<Rightarrow> string" where
  "expand [] m = []"
| "expand (Literal c # ps) m = c # expand ps m"
| "expand (WholeMatch # ps) m = m @ expand ps m"

text \<open>
  The scan of \<open>re.sub\<close>: leftmost matches, not overlapping, each replaced by the
  expanded template. The empty pattern matches once before every character and
  once at the end.
\<close>

fun sub_scan :: "string \<Rightarrow> piece list \<Rightarrow> string \<Rightarrow> string" where
  "sub_scan old ps [] = (if old = [] then expand ps [] else [])"
| "sub_scan old ps (c # cs) =
     (if old = [] then expand ps [] @ c # sub_scan old ps cs
      else if match_here old (c # cs)
      then expand ps (take (length old) (c # cs)) @ sub_scan old ps (drop (length old - 1) cs)
      else c # sub_scan old ps cs)"

section \<open>Paths, files and the console\<close>

text \<open>
  A path is its directory and its final component. A file system maps a path to
  the text of the file there, as \<open>read_text\<close> returns it and \<open>write_text\<close> stores
  it; only regular files are modelled.
\<close>

record path =
  parent :: string
  name :: string

text \<open>
  \<open>PurePath.stem\<close>: the name without its last suffix, where a suffix starts at the
  last dot unless that dot is the first or the last character of the name.
\<close>

definition stem :: "string \<Rightarrow> string" where
  "stem nm =
     (if CHR ''.'' \<in> set nm
      then (let i = length nm - 1 - length (takeWhile (\<lambda>c. c \<noteq> CHR ''.'') (rev nm))
            in if 0 < i \<and> i < length nm - 1 then take i nm else nm)
      else nm)"

definition get_paths :: "path \<Rightarrow> path \<times> path" where
  "get_paths theme_file =
     (\<lparr>parent = parent theme_file, name = ''og_'' @ name theme_file\<rparr>,
      \<lparr>parent = parent theme_file, name = ''replacements_'' @ stem (name theme_file) @ ''.txt''\<rparr>)"

datatype bad_parameter = ThemeFileNotFound path | RunInitFirst path

text \<open>
  The exceptions: \<open>ValueError\<close> is what \<open>subprocess.run\<close> raises on an argument
  that holds a NUL character, \<open>MarkupError\<close> what \<open>console.print\<close> raises on a
  line whose markup it refuses, \<open>TemplateError\<close> what \<open>re.sub\<close> raises on its
  replacement template.
\<close>

datatype error =
    BadParameter bad_parameter
  | FileNotFoundError path
  | CalledProcessError "string list" int
  | ValueError
  | MarkupError
  | TemplateError

text \<open>The lines that the commands print, one constructor for each \<open>console.print\<close>.\<close>

datatype event =
    Replacing string string
  | PastelFailed string string error
  | SavedOriginal path
  | InitializedReplacements path
  | AppliedReplacements path
  | ReadingFrom path
  | ProcessingCommands nat
  | Processing string
  | Arrow string
  | EndOfLine

record world =
  files :: "path \<Rightarrow> string option"
  console :: "event list"

definition exists_file :: "world \<Rightarrow> path \<Rightarrow> bool" where
  "exists_file w p = (files w p \<noteq> None)"

definition read_text :: "world \<Rightarrow> path \<Rightarrow> error + string" where
  "read_text w p = (case files w p of None \<Rightarrow> Inl (FileNotFoundError p) | Some s \<Rightarrow> Inr s)"

definition write_text :: "path \<Rightarrow> string \<Rightarrow> world \<Rightarrow> world" where
  "write_text p s w = w\<lparr>files := (files w)(p \<mapsto> s)\<rparr>"

text \<open>
  \<open>console.print\<close> renders its line as markup. A line that holds no \<open>[\<close> is
  printed as it is. In a line that holds one the renderer looks for tags, and it
  raises \<open>MarkupError\<close> on a closing tag such as \<open>[/x]\<close> or \<open>[/]\<close> that closes
  nothing. \<open>has_markup\<close> tells whether the line of an event holds a \<open>[\<close>, in its
  fixed text or in the text put into it; the renderer is a parameter, \<open>True\<close> on
  the events whose line it accepts.
\<close>

type_synonym renderer = "event \<Rightarrow> bool"

definition has_bracket :: "string \<Rightarrow> bool" where
  "has_bracket s = (CHR ''['' \<in> set s)"

definition path_has_bracket :: "path \<Rightarrow> bool" where
  "path_has_bracket p = (has_bracket (parent p) \<or> has_bracket (name p))"

fun has_markup :: "event \<Rightarrow> bool" where
  "has_markup (Replacing old new) = (has_bracket old \<or> has_bracket new)"
| "has_markup (PastelFailed command color e) = True"
| "has_markup (SavedOriginal p) = path_has_bracket p"
| "has_markup (InitializedReplacements p) = path_has_bracket p"
| "has_markup (AppliedReplacements p) = path_has_bracket p"
| "has_markup (ReadingFrom p) = path_has_bracket p"
| "has_markup (ProcessingCommands n) = False"
| "has_markup (Processing old) = has_bracket old"
| "has_markup (Arrow result) = has_bracket result"
| "has_markup EndOfLine = False"

text \<open>\<open>console.print\<close> returns: the line is printed.\<close>

definition printable :: "renderer \<Rightarrow> event \<Rightarrow> bool" where
  "printable rich e = (if has_markup e then rich e else True)"

definition console_print :: "renderer \<Rightarrow> event \<Rightarrow> world \<Rightarrow> (error + unit) \<times> world" where
  "console_print rich e w =
     (if printable rich e then (Inr (), w\<lparr>console := console w @ [e]\<rparr>)
      else (Inl MarkupError, w))"

text \<open>The lines that a called function has printed, put on the console.\<close>

definition printed :: "event list \<Rightarrow> world \<Rightarrow> world" where
  "printed es w = w\<lparr>console := console w @ es\<rparr>"

section \<open>The external colour tool\<close>

text \<open>
  \<open>pastel\<close> is a parameter: from the arguments after the program name and the text
  given on standard input (\<open>None\<close> when the call passes no \<open>input\<close>) to the exit
  status and the captured standard output. \<open>subprocess.run\<close> raises \<open>ValueError\<close>
  before it starts the program when an argument holds a NUL character, and with
  \<open>check=True\<close> it raises \<open>CalledProcessError\<close> on a status other than 0.
\<close>

type_synonym tool = "string list \<Rightarrow> string option \<Rightarrow> int \<times> string"

definition has_nul :: "string \<Rightarrow> bool" where
  "has_nul s = (CHR 0x00 \<in> set s)"

definition run_checked :: "tool \<Rightarrow> string list \<Rightarrow> string option \<Rightarrow> error + string" where
  "run_checked pastel args inp =
     (if list_ex has_nul args then Inl ValueError
      else (case pastel args inp of
              (status, out) \<Rightarrow>
                if status \<noteq> 0 then Inl (CalledProcessError args status) else Inr out))"

section \<open>extract_colors\<close>

definition is_hex :: "char \<Rightarrow> bool" where
  "is_hex c = (between 0x30 c 0x39 \<or> between 0x61 c 0x66 \<or> between 0x41 c 0x46)"

text \<open>
  One attempt of the pattern \<open>"(#[0-9a-fA-F]+?)"\<close> at the front of the text: the
  captured group and the text after the closing quote.
\<close>

definition match_color :: "string \<Rightarrow> (string \<times> string) option" where
  "match_color s =
     (case s of
        q # h # t \<Rightarrow>
          if q = dquote \<and> h = CHR ''#'' \<and> takeWhile is_hex t \<noteq> []
             \<and> take 1 (dropWhile is_hex t) = [dquote]
          then Some (h # takeWhile is_hex t, tl (dropWhile is_hex t))
          else None
      | _ \<Rightarrow> None)"

function findall_colors :: "string \<Rightarrow> string list" where
  "findall_colors [] = []"
| "findall_colors (c # cs) =
     (case match_color (c # cs) of
        Some (color, rest) \<Rightarrow> color # findall_colors rest
      | None \<Rightarrow> findall_colors cs)"
  by pat_completeness auto
termination
proof -
  have shorter: "length (dropWhile P xs) - Suc 0 < Suc (Suc (length xs))" for P and xs :: string
    using length_dropWhile_le [of P xs] by simp
  show ?thesis
    by (relation "measure length")
      (auto simp: match_color_def shorter split: list.splits if_splits)
qed

fun format_all :: "tool \<Rightarrow> string list \<Rightarrow> error + string list" where
  "format_all pastel [] = Inr []"
| "format_all pastel (color # colors) =
     (if color = [] then format_all pastel colors
      else (case run_checked pastel [''format'', ''hex''] (Some color) of
              Inl e \<Rightarrow> Inl e
            | Inr out \<Rightarrow>
                (case format_all pastel colors of
                   Inl e \<Rightarrow> Inl e
                 | Inr outs \<Rightarrow> Inr (strip out # outs))))"

text \<open>
  \<open>list(set(...))\<close> keeps one copy of each colour in an order that Python leaves
  open; \<open>set_order\<close> is that order, a parameter.
\<close>

definition extract_colors :: "tool \<Rightarrow> (string list \<Rightarrow> string list) \<Rightarrow> string \<Rightarrow> error + string list" where
  "extract_colors pastel set_order content =
     (let colors = set_order (remdups (findall_colors content))
      in if colors = [] then Inr []
         else (case run_checked pastel [''sort-by'', ''hue''] (Some (join [newline] colors)) of
                 Inl e \<Rightarrow> Inl e
               | Inr out \<Rightarrow>
                   (let hue_sorted = split_on newline (strip out)
                    in (case run_checked pastel [''sort-by'', ''luminance'']
                               (Some (join [newline] hue_sorted)) of
                          Inl e \<Rightarrow> Inl e
                        | Inr out' \<Rightarrow> format_all pastel (split_on newline (strip out'))))))"

section \<open>read_replacements\<close>

text \<open>The body of the loop on one line: the pairs it yields, none or one.\<close>

definition parse_line :: "string \<Rightarrow> (string \<times> string) list" where
  "parse_line line =
     (if line \<noteq> [] \<and> space \<in> set line
      then (case split_once space line of
              [old, new] \<Rightarrow> [(strip old, strip new)]
            | _ \<Rightarrow> [])
      else [])"

definition parse_replacements :: "string \<Rightarrow> (string \<times> string) list" where
  "parse_replacements text = concat (map parse_line (split_on newline (strip text)))"

definition read_replacements :: "world \<Rightarrow> path \<Rightarrow> error + (string \<times> string) list" where
  "read_replacements w replacements_file =
     (case read_text w replacements_file of
        Inl e \<Rightarrow> Inl e
      | Inr text \<Rightarrow> Inr (parse_replacements text))"

section \<open>apply_color_replacement\<close>

text \<open>\<open>re.sub(re.escape(old), new, content, flags=re.IGNORECASE)\<close>.\<close>

definition re_sub :: "string \<Rightarrow> string \<Rightarrow> string \<Rightarrow> error + string" where
  "re_sub old new content =
     (case parse_template new of
        None \<Rightarrow> Inl TemplateError
      | Some ps \<Rightarrow> Inr (sub_scan old ps content))"

text \<open>
  The result and the lines printed. The line is printed before \<open>re.sub\<close> is
  called.
\<close>

definition apply_color_replacement ::
  "renderer \<Rightarrow> string \<Rightarrow> string \<Rightarrow> string \<Rightarrow> (error + string) \<times> event list" where
  "apply_color_replacement rich content old new =
     (if old = new then (Inr content, [])
      else if \<not> printable rich (Replacing old new) then (Inl MarkupError, [])
      else (re_sub old new content, [Replacing old new]))"

text \<open>The \<open>reduce\<close> of \<open>apply\<close> over the pairs, starting from the content.\<close>

fun reduce_replacements ::
  "renderer \<Rightarrow> (string \<times> string) list \<Rightarrow> string \<Rightarrow> (error + string) \<times> event list" where
  "reduce_replacements rich [] acc = (Inr acc, [])"
| "reduce_replacements rich ((old, new) # rest) acc =
     (case apply_color_replacement rich acc old new of
        (Inl e, out) \<Rightarrow> (Inl e, out)
      | (Inr acc', out) \<Rightarrow>
          (case reduce_replacements rich rest acc' of
             (r, out') \<Rightarrow> (r, out @ out')))"

section \<open>run_pastel_command\<close>

text \<open>
  The clause \<open>except subprocess.CalledProcessError\<close>: it prints the error line
  and returns the colour; any other exception is not caught.
\<close>

definition except_called_process_error ::
  "renderer \<Rightarrow> string \<Rightarrow> string \<Rightarrow> error \<Rightarrow> (error + string) \<times> event list" where
  "except_called_process_error rich color command e =
     (case e of
        CalledProcessError args status \<Rightarrow>
          if printable rich (PastelFailed command color e)
          then (Inr color, [PastelFailed command color e])
          else (Inl MarkupError, [])
      | _ \<Rightarrow> (Inl e, []))"

definition run_pastel_command ::
  "renderer \<Rightarrow> tool \<Rightarrow> string \<Rightarrow> string \<Rightarrow> (error + string) \<times> event list" where
  "run_pastel_command rich pastel color command =
     (case run_checked pastel (split_ws command @ [color]) None of
        Inl e \<Rightarrow> except_called_process_error rich color command e
      | Inr out \<Rightarrow>
          (case run_checked pastel [''format'', ''hex''] (Some (strip out)) of
             Inl e \<Rightarrow> except_called_process_error rich color command e
           | Inr formatted \<Rightarrow> (Inr (strip formatted), [])))"

text \<open>
  The \<open>reduce\<close> of \<open>run\<close> over the commands, for one colour: after each command
  its result is printed behind an arrow.
\<close>

fun reduce_commands ::
  "renderer \<Rightarrow> tool \<Rightarrow> string list \<Rightarrow> string \<Rightarrow> (error + string) \<times> event list" where
  "reduce_commands rich pastel [] color = (Inr color, [])"
| "reduce_commands rich pastel (cmd # cmds) color =
     (case run_pastel_command rich pastel color cmd of
        (Inl e, out) \<Rightarrow> (Inl e, out)
      | (Inr result, out) \<Rightarrow>
          if \<not> printable rich (Arrow result) then (Inl MarkupError, out)
          else (case reduce_commands rich pastel cmds result of
                  (r, out') \<Rightarrow> (r, out @ Arrow result # out')))"

text \<open>The loop of \<open>run\<close> over the pairs: the new lines and what is printed.\<close>

fun new_replacements ::
  "renderer \<Rightarrow> tool \<Rightarrow> string list \<Rightarrow> (string \<times> string) list \<Rightarrow>
     (error + string list) \<times> event list" where
  "new_replacements rich pastel cmds [] = (Inr [], [])"
| "new_replacements rich pastel cmds ((old, current) # rest) =
     (if \<not> printable rich (Processing old) then (Inl MarkupError, [])
      else (case reduce_commands rich pastel cmds current of
              (Inl e, out) \<Rightarrow> (Inl e, Processing old # out)
            | (Inr final_color, out) \<Rightarrow>
                (case new_replacements rich pastel cmds rest of
                   (Inl e, out') \<Rightarrow> (Inl e, Processing old # out @ EndOfLine # out')
                 | (Inr lines, out') \<Rightarrow>
                     (Inr ((old @ [space] @ final_color) # lines),
                      Processing old # out @ EndOfLine # out'))))"

section \<open>The commands\<close>

text \<open>
  A command takes the world to its outcome, \<open>Inl\<close> the exception that ends it, and
  the world it leaves behind.
\<close>

definition init ::
  "renderer \<Rightarrow> tool \<Rightarrow> (string list \<Rightarrow> string list) \<Rightarrow> path \<Rightarrow> world \<Rightarrow> (error + unit) \<times> world" where
  "init rich pastel set_order theme_file w =
     (if \<not> exists_file w theme_file then (Inl (BadParameter (ThemeFileNotFound theme_file)), w)
      else (case get_paths theme_file of
        (og_file, replacements_file) \<Rightarrow>
          (case (if \<not> exists_file w og_file
                 then (case read_text w theme_file of
                         Inl e \<Rightarrow> (Inl e, w)
                       | Inr s \<Rightarrow> console_print rich (SavedOriginal og_file) (write_text og_file s w))
                 else (Inr (), w)) of
             (Inl e, w1) \<Rightarrow> (Inl e, w1)
           | (Inr u, w1) \<Rightarrow>
               (case read_text w1 og_file of
                  Inl e \<Rightarrow> (Inl e, w1)
                | Inr content \<Rightarrow>
                    (case extract_colors pastel set_order content of
                       Inl e \<Rightarrow> (Inl e, w1)
                     | Inr colors \<Rightarrow>
                         console_print rich (InitializedReplacements replacements_file)
                           (write_text replacements_file
                              (join [newline] (map (\<lambda>color. color @ [space] @ color) colors))
                              w1))))))"

definition apply_cmd :: "renderer \<Rightarrow> path \<Rightarrow> world \<Rightarrow> (error + unit) \<times> world" where
  "apply_cmd rich theme_file w =
     (if \<not> exists_file w theme_file then (Inl (BadParameter (ThemeFileNotFound theme_file)), w)
      else (case get_paths theme_file of
        (og_file, replacements_file) \<Rightarrow>
          if \<not> exists_file w replacements_file
          then (Inl (BadParameter (RunInitFirst replacements_file)), w)
          else (case read_text w og_file of
                  Inl e \<Rightarrow> (Inl e, w)
                | Inr content \<Rightarrow>
                    (case read_replacements w replacements_file of
                       Inl e \<Rightarrow> (Inl e, w)
                     | Inr pairs \<Rightarrow>
                         (case reduce_replacements rich pairs content of
                            (Inl e, out) \<Rightarrow> (Inl e, printed out w)
                          | (Inr final_content, out) \<Rightarrow>
                              console_print rich (AppliedReplacements theme_file)
                                (write_text theme_file final_content (printed out w)))))))"

definition run ::
  "renderer \<Rightarrow> tool \<Rightarrow> path \<Rightarrow> string list \<Rightarrow> world \<Rightarrow> (error + unit) \<times> world" where
  "run rich pastel theme_file pastel_commands w =
     (case get_paths theme_file of
        (og_file, replacements_file) \<Rightarrow>
          if \<not> exists_file w replacements_file
          then (Inl (BadParameter (RunInitFirst replacements_file)), w)
          else (case console_print rich (ReadingFrom replacements_file) w of
                  (Inl e, w0) \<Rightarrow> (Inl e, w0)
                | (Inr u, w0) \<Rightarrow>
                    (case console_print rich (ProcessingCommands (length pastel_commands)) w0 of
                       (Inl e, w1) \<Rightarrow> (Inl e, w1)
                     | (Inr u', w1) \<Rightarrow>
                         (case read_replacements w1 replacements_file of
                            Inl e \<Rightarrow> (Inl e, w1)
                          | Inr pairs \<Rightarrow>
                              (case new_replacements rich pastel pastel_commands pairs of
                                 (Inl e, out) \<Rightarrow> (Inl e, printed out w1)
                               | (Inr lines, out) \<Rightarrow>
                                   apply_cmd rich theme_file
                                     (write_text replacements_file (join [newline] lines)
                                        (printed out w1)))))))"

section \<open>Occurrences and colours\<close>

text \<open>
  A case-insensitive occurrence of \<open>old\<close> in a text: the pattern of
  \<open>apply_color_replacement\<close> matches at the front of the text or of one of its
  suffixes.
\<close>

fun contains_ci :: "string \<Rightarrow> string \<Rightarrow> bool" where
  "contains_ci old [] = match_here old []"
| "contains_ci old (c # cs) = (match_here old (c # cs) \<or> contains_ci old cs)"

text \<open>A colour as \<open>extract_colors\<close> finds it: \<open>#\<close> and one or more hex digits.\<close>

definition is_color :: "string \<Rightarrow> bool" where
  "is_color s = (case s of [] \<Rightarrow> False | c # h \<Rightarrow> c = CHR ''#'' \<and> h \<noteq> [] \<and> list_all is_hex h)"

section \<open>The replacements file as the specification words it\<close>

text \<open>
  For comparison with \<open>parse_line\<close>, the reading in the words of the
  specification, not taken from the code: a line is trimmed and cut at its first
  run of white space into two tokens, and a line without white space is skipped.
\<close>

definition spec_parse_line :: "string \<Rightarrow> (string \<times> string) list" where
  "spec_parse_line line =
     (let l = strip line
      in if list_ex is_space l
         then [(takeWhile (\<lambda>c. \<not> is_space c) l, lstrip (dropWhile (\<lambda>c. \<not> is_space c) l))]
         else [])"

definition spec_parse_replacements :: "string \<Rightarrow> (string \<times> string) list" where
  "spec_parse_replacements text = concat (map spec_parse_line (split_on newline text))"

definition tab :: char where
  "tab = CHR 0x09"

section \<open>Example inputs\<close>

definition dark :: path where
  "dark = \<lparr>parent = ''themes'', name = ''dark.json''\<rparr>"

definition og_dark :: path where
  "og_dark = \<lparr>parent = ''themes'', name = ''og_dark.json''\<rparr>"

definition replacements_dark :: path where
  "replacements_dark = \<lparr>parent = ''themes'', name = ''replacements_dark.txt''\<rparr>"


text \<open>The theme \<open>{"fg":"#112233","bg":"#112233"}\<close>.\<close>

definition example_theme :: string where
  "example_theme =
     ''{'' @ [dquote] @ ''fg'' @ [dquote] @ '':'' @ [dquote] @ ''#112233'' @ [dquote] @ '',''
       @ [dquote] @ ''bg'' @ [dquote] @ '':'' @ [dquote] @ ''#112233'' @ [dquote] @ ''}''"

definition identity_world :: world where
  "identity_world =
     \<lparr>files = [og_dark \<mapsto> example_theme,
                replacements_dark \<mapsto> ''#112233 #112233'',
                dark \<mapsto> ''{}''],
      console = []\<rparr>"

definition no_original_world :: world where
  "no_original_world =
     \<lparr>files = [replacements_dark \<mapsto> ''#112233 #445566'', dark \<mapsto> example_theme],
      console = []\<rparr>"

definition no_theme_world :: world where
  "no_theme_world =
     \<lparr>files = [replacements_dark \<mapsto> ''#aaa #bbb'' @ [newline]], console = []\<rparr>"

text \<open>A tool that succeeds on every call and prints \<open>#cccccc\<close>.\<close>

definition fixed_tool :: tool where
  "fixed_tool args inp = (0, ''#cccccc'' @ [newline])"

text \<open>A replacements file with a blank line, a line without a space and a run of spaces.\<close>

definition untidy_text :: string where
  "untidy_text =
     ''#aaa #aaa'' @ [newline, newline] @ ''malformed'' @ [newline] @ ''#bbb   #bbb'' @ [newline]"


text \<open>
  A tool whose \<open>lighten 0.1\<close> fails on one colour and that prints \<open>#cccccc\<close>
  on every other call.
\<close>

definition picky_tool :: "string \<Rightarrow> tool" where
  "picky_tool color args inp =
     (if args = [''lighten'', ''0.1'', color] then (1, [])
      else (0, ''#cccccc'' @ [newline]))"

definition failing_text :: string where
  "failing_text = ''#aaa #aaa'' @ [newline] @ ''#bbb #bbb''"

definition failing_world :: world where
  "failing_world =
     \<lparr>files = [og_dark \<mapsto> ''#aaa #bbb'',
                replacements_dark \<mapsto> failing_text,
                dark \<mapsto> ''#aaa #bbb''],
      console = []\<rparr>"

text \<open>
  A tool that exits with status 2 on one list of arguments and echoes its input,
  ended by a newline, on every other.
\<close>

definition tool_failing_on :: "string list \<Rightarrow> tool" where
  "tool_failing_on bad args inp =
     (if args = bad then (2, [])
      else (0, (case inp of None \<Rightarrow> [] | Some s \<Rightarrow> s) @ [newline]))"





text \<open>
  A renderer that accepts every line, and one that refuses the lines of the
  listed events.
\<close>

definition accepting :: renderer where
  "accepting e = True"

definition refusing :: "event list \<Rightarrow> renderer" where
  "refusing bad e = (e \<notin> set bad)"




section \<open>Paths and files: basic facts\<close>

lemma og_file_not_theme_file: "fst (get_paths theme_file) \<noteq> theme_file"
proof
  assume "fst (get_paths theme_file) = theme_file"
  then have "name (fst (get_paths theme_file)) = name theme_file" by simp
  then have "length (''og_'' @ name theme_file) = length (name theme_file)"
    by (simp add: get_paths_def)
  then show False by simp
qed

lemma og_file_not_replacements_file: "fst (get_paths theme_file) \<noteq> snd (get_paths theme_file)"
proof
  assume "fst (get_paths theme_file) = snd (get_paths theme_file)"
  then have "name (fst (get_paths theme_file)) = name (snd (get_paths theme_file))" by simp
  then show False by (simp add: get_paths_def)
qed

lemma stem_not_wrapped: "''replacements_'' @ stem nm @ ''.txt'' \<noteq> nm"
proof
  assume eq: "''replacements_'' @ stem nm @ ''.txt'' = nm"
  have "length (''replacements_'' @ stem nm @ ''.txt'') = length (stem nm) + 17"
    by simp
  with eq have len: "length nm = length (stem nm) + 17"
    by simp
  then have ne: "stem nm \<noteq> nm" by auto
  have "takeWhile (\<lambda>c. c \<noteq> CHR ''.'') (rev (''replacements_'' @ stem nm @ ''.txt'')) = ''txt''"
    by simp
  with eq have suffix: "takeWhile (\<lambda>c. c \<noteq> CHR ''.'') (rev nm) = ''txt''"
    by simp
  from ne have "stem nm = take (length nm - 1 - length ''txt'') nm"
    unfolding stem_def Let_def suffix by (simp split: if_splits)
  then have "length (stem nm) = min (length nm) (length nm - 1 - length ''txt'')"
    by (metis length_take)
  with len show False by simp
qed

lemma replacements_file_not_theme_file: "snd (get_paths theme_file) \<noteq> theme_file"
proof
  assume "snd (get_paths theme_file) = theme_file"
  then have "name (snd (get_paths theme_file)) = name theme_file" by simp
  then show False using stem_not_wrapped [of "name theme_file"] by (simp add: get_paths_def)
qed

lemma files_write_text: "files (write_text p s w) q = (if q = p then Some s else files w q)"
  by (simp add: write_text_def)

lemma files_printed: "files (printed es w) = files w"
  by (simp add: printed_def)

lemma printed_nothing: "printed [] w = w"
  by (simp add: printed_def)

lemma files_console_print: "files (snd (console_print rich e w)) = files w"
  by (simp add: console_print_def)

lemma apply_cmd_keeps_others:
  "p \<noteq> theme_file \<Longrightarrow> files (snd (apply_cmd rich theme_file w)) p = files w p"
  by (cases "get_paths theme_file")
    (simp add: apply_cmd_def files_write_text files_printed files_console_print
      split: sum.splits prod.splits)

lemma run_keeps_others:
  assumes "p \<noteq> theme_file" and "p \<noteq> snd (get_paths theme_file)"
  shows "files (snd (run rich pastel theme_file cmds w)) p = files w p"
proof -
  obtain og_file replacements_file where gp: "get_paths theme_file = (og_file, replacements_file)"
    by (cases "get_paths theme_file")
  with assms have ne: "p \<noteq> replacements_file" by simp
  have reading: "files (snd (console_print rich e w')) = files w'" for e w'
    by (rule files_console_print)
  show ?thesis
    using assms(1) ne
    by (auto simp add: run_def gp console_print_def apply_cmd_keeps_others files_write_text
        files_printed split: sum.splits prod.splits)
qed

lemma init_keeps_original:
  assumes "files w (fst (get_paths theme_file)) = Some original"
  shows "files (snd (init rich pastel set_order theme_file w)) (fst (get_paths theme_file)) =
    Some original"
proof -
  obtain og_file replacements_file where gp: "get_paths theme_file = (og_file, replacements_file)"
    by (cases "get_paths theme_file")
  from og_file_not_replacements_file [of theme_file] gp have ne: "og_file \<noteq> replacements_file"
    by simp
  from assms gp have og: "files w og_file = Some original" by simp
  show ?thesis
    using og ne
    by (simp add: init_def gp exists_file_def read_text_def files_write_text
        files_console_print split: sum.splits)
qed

lemma init_creates_original:
  assumes "exists_file w theme_file"
  shows "exists_file (snd (init rich pastel set_order theme_file w)) (fst (get_paths theme_file))"
proof -
  obtain og_file replacements_file where gp: "get_paths theme_file = (og_file, replacements_file)"
    by (cases "get_paths theme_file")
  from og_file_not_replacements_file [of theme_file] gp have ne: "og_file \<noteq> replacements_file"
    by simp
  show ?thesis
    using assms ne
    by (auto simp add: init_def gp exists_file_def read_text_def files_write_text
        console_print_def split: sum.splits option.splits prod.splits if_splits)
qed

lemma apply_color_replacement_same:
  "apply_color_replacement rich content color color = (Inr content, [])"
  by (simp add: apply_color_replacement_def)

lemma reduce_replacements_identity:
  "list_all (\<lambda>(old, new). old = new) pairs \<Longrightarrow>
   reduce_replacements rich pairs content = (Inr content, [])"
  by (induction pairs) (auto simp: apply_color_replacement_same)

section \<open>Substitution is a left fold\<close>



section \<open>The identity mapping\<close>

text \<open>
  C5: a pair whose two colours are equal returns the content unchanged and
  prints nothing; so does the fold over any list of such pairs. When every pair
  read from the replacements file is such a pair, \<open>apply\<close> writes the content of
  the original copy to the theme file and prints only its closing line, after
  the write: it ends normally, unless the renderer refuses that line.
\<close>

theorem identity_mapping_is_identity:
  "apply_color_replacement rich content color color = (Inr content, [])
   \<and> (list_all (\<lambda>(old, new). old = new) pairs \<longrightarrow>
        reduce_replacements rich pairs content = (Inr content, []))
   \<and> (exists_file w theme_file
        \<and> files w (fst (get_paths theme_file)) = Some original
        \<and> files w (snd (get_paths theme_file)) = Some text
        \<and> list_all (\<lambda>(old, new). old = new) (parse_replacements text) \<longrightarrow>
        apply_cmd rich theme_file w =
          console_print rich (AppliedReplacements theme_file) (write_text theme_file original w)
        \<and> files (snd (apply_cmd rich theme_file w)) theme_file = Some original
        \<and> (printable rich (AppliedReplacements theme_file) \<longrightarrow>
             apply_cmd rich theme_file w =
               (Inr (), printed [AppliedReplacements theme_file]
                          (write_text theme_file original w))))"
proof (intro conjI impI)
  show "apply_color_replacement rich content color color = (Inr content, [])"
    by (rule apply_color_replacement_same)
next
  assume "list_all (\<lambda>(old, new). old = new) pairs"
  then show "reduce_replacements rich pairs content = (Inr content, [])"
    by (rule reduce_replacements_identity)
next
  assume h: "exists_file w theme_file
        \<and> files w (fst (get_paths theme_file)) = Some original
        \<and> files w (snd (get_paths theme_file)) = Some text
        \<and> list_all (\<lambda>(old, new). old = new) (parse_replacements text)"
  obtain og_file replacements_file where gp: "get_paths theme_file = (og_file, replacements_file)"
    by (cases "get_paths theme_file")
  from h gp have f: "files w og_file = Some original" "files w replacements_file = Some text"
    by simp_all
  from h have ident: "list_all (\<lambda>(old, new). old = new) (parse_replacements text)"
    by simp
  from h f reduce_replacements_identity [OF ident, of rich original]
  show run: "apply_cmd rich theme_file w =
      console_print rich (AppliedReplacements theme_file) (write_text theme_file original w)"
    by (simp add: apply_cmd_def gp exists_file_def read_text_def read_replacements_def
        printed_nothing)
  show "files (snd (apply_cmd rich theme_file w)) theme_file = Some original"
    by (simp add: run files_console_print files_write_text)
  assume "printable rich (AppliedReplacements theme_file)"
  then show "apply_cmd rich theme_file w =
      (Inr (), printed [AppliedReplacements theme_file] (write_text theme_file original w))"
    by (simp add: run console_print_def printed_def)
qed

theorem identity_mapping_is_identity_witness:
  "list_all (\<lambda>(old, new). old = new) [(''#112233'', ''#112233'')]
   \<and> reduce_replacements accepting [(''#112233'', ''#112233'')] example_theme =
       (Inr example_theme, [])
   \<and> exists_file identity_world dark
   \<and> files identity_world (fst (get_paths dark)) = Some example_theme
   \<and> files identity_world (snd (get_paths dark)) = Some ''#112233 #112233''
   \<and> list_all (\<lambda>(old, new). old = new) (parse_replacements ''#112233 #112233'')
   \<and> printable accepting (AppliedReplacements dark)
   \<and> fst (apply_cmd accepting dark identity_world) = Inr ()
   \<and> files (snd (apply_cmd accepting dark identity_world)) dark = Some example_theme"
proof -
  have pairs: "list_all (\<lambda>(old, new). old = new) [(''#112233'', ''#112233'')]"
    by simp
  have world: "exists_file identity_world dark
     \<and> files identity_world (fst (get_paths dark)) = Some example_theme
     \<and> files identity_world (snd (get_paths dark)) = Some ''#112233 #112233''
     \<and> list_all (\<lambda>(old, new). old = new) (parse_replacements ''#112233 #112233'')"
    by code_simp
  have line: "printable accepting (AppliedReplacements dark)"
    by code_simp
  note inst = identity_mapping_is_identity
    [of accepting example_theme "''#112233''" "[(''#112233'', ''#112233'')]" identity_world dark
      example_theme "''#112233 #112233''"]
  from inst pairs
  have fold: "reduce_replacements accepting [(''#112233'', ''#112233'')] example_theme =
      (Inr example_theme, [])"
    by blast
  from inst world
  have theme: "files (snd (apply_cmd accepting dark identity_world)) dark = Some example_theme"
    by blast
  from inst world line
  have "apply_cmd accepting dark identity_world =
      (Inr (), printed [AppliedReplacements dark] (write_text dark example_theme identity_world))"
    by blast
  then have outcome: "fst (apply_cmd accepting dark identity_world) = Inr ()"
    by simp
  from pairs world line fold theme outcome show ?thesis
    by blast
qed

section \<open>apply without an original copy\<close>

text \<open>
  C9: when the theme file and the replacements file exist and the original copy
  does not, \<open>apply\<close> ends with the \<open>FileNotFoundError\<close> of reading the original
  copy and leaves the world as it was: the theme file is not written.
\<close>

theorem apply_without_original_fails_before_writing:
  assumes "exists_file w theme_file"
    and "exists_file w (snd (get_paths theme_file))"
    and "\<not> exists_file w (fst (get_paths theme_file))"
  shows "apply_cmd rich theme_file w = (Inl (FileNotFoundError (fst (get_paths theme_file))), w)
    \<and> files (snd (apply_cmd rich theme_file w)) theme_file = files w theme_file"
proof -
  obtain og_file replacements_file where gp: "get_paths theme_file = (og_file, replacements_file)"
    by (cases "get_paths theme_file")
  with assms show ?thesis
    by (simp add: apply_cmd_def exists_file_def read_text_def)
qed

theorem apply_without_original_witness:
  "exists_file no_original_world dark
   \<and> exists_file no_original_world (snd (get_paths dark))
   \<and> \<not> exists_file no_original_world (fst (get_paths dark))
   \<and> apply_cmd accepting dark no_original_world =
       (Inl (FileNotFoundError og_dark), no_original_world)
   \<and> files (snd (apply_cmd accepting dark no_original_world)) dark = Some example_theme"
proof -
  have h: "exists_file no_original_world dark"
    "exists_file no_original_world (snd (get_paths dark))"
    "\<not> exists_file no_original_world (fst (get_paths dark))"
    by code_simp+
  have og: "fst (get_paths dark) = og_dark"
    by code_simp
  have theme: "files no_original_world dark = Some example_theme"
    by code_simp
  from apply_without_original_fails_before_writing [OF h, of accepting] h og theme
  show ?thesis by simp
qed

section \<open>The original copy is never overwritten\<close>

text \<open>
  C6: \<open>init\<close> leaves an existing original copy with its content; after a first
  \<open>init\<close> on an existing theme file the original copy exists, and a second
  \<open>init\<close> does not change it; \<open>apply\<close> and \<open>run\<close> never write to it, whether
  they end normally or not.
\<close>

theorem original_copy_is_never_overwritten:
  "(files w (fst (get_paths theme_file)) = Some original \<longrightarrow>
      files (snd (init rich pastel set_order theme_file w)) (fst (get_paths theme_file)) =
        Some original)
   \<and> (exists_file w theme_file \<longrightarrow>
        exists_file (snd (init rich pastel set_order theme_file w)) (fst (get_paths theme_file))
        \<and> files (snd (init rich' pastel' set_order' theme_file
                         (snd (init rich pastel set_order theme_file w))))
             (fst (get_paths theme_file)) =
           files (snd (init rich pastel set_order theme_file w)) (fst (get_paths theme_file)))
   \<and> files (snd (apply_cmd rich theme_file w)) (fst (get_paths theme_file)) =
       files w (fst (get_paths theme_file))
   \<and> files (snd (run rich pastel theme_file pastel_commands w)) (fst (get_paths theme_file)) =
       files w (fst (get_paths theme_file))"
proof (intro conjI impI)
  assume "files w (fst (get_paths theme_file)) = Some original"
  then show "files (snd (init rich pastel set_order theme_file w)) (fst (get_paths theme_file)) =
      Some original"
    by (rule init_keeps_original)
next
  assume "exists_file w theme_file"
  then show first:
    "exists_file (snd (init rich pastel set_order theme_file w)) (fst (get_paths theme_file))"
    by (rule init_creates_original)
  then obtain original where
    "files (snd (init rich pastel set_order theme_file w)) (fst (get_paths theme_file)) =
       Some original"
    by (auto simp: exists_file_def)
  then show "files (snd (init rich' pastel' set_order' theme_file
                          (snd (init rich pastel set_order theme_file w))))
             (fst (get_paths theme_file)) =
           files (snd (init rich pastel set_order theme_file w)) (fst (get_paths theme_file))"
    by (simp add: init_keeps_original)
next
  show "files (snd (apply_cmd rich theme_file w)) (fst (get_paths theme_file)) =
       files w (fst (get_paths theme_file))"
    by (simp add: apply_cmd_keeps_others og_file_not_theme_file)
next
  show "files (snd (run rich pastel theme_file pastel_commands w)) (fst (get_paths theme_file)) =
       files w (fst (get_paths theme_file))"
    by (simp add: run_keeps_others og_file_not_theme_file og_file_not_replacements_file)
qed

theorem original_copy_is_never_overwritten_witness:
  "files identity_world (fst (get_paths dark)) = Some example_theme
   \<and> files (snd (init accepting fixed_tool id dark identity_world)) (fst (get_paths dark)) =
       Some example_theme
   \<and> exists_file no_original_world dark
   \<and> exists_file (snd (init accepting fixed_tool id dark no_original_world)) (fst (get_paths dark))
   \<and> files (snd (init accepting fixed_tool id dark
                    (snd (init accepting fixed_tool id dark no_original_world))))
         (fst (get_paths dark)) =
       files (snd (init accepting fixed_tool id dark no_original_world)) (fst (get_paths dark))"
proof -
  have og: "files identity_world (fst (get_paths dark)) = Some example_theme"
    by code_simp
  have theme: "exists_file no_original_world dark"
    by code_simp
  note inst1 = original_copy_is_never_overwritten
    [of identity_world dark example_theme accepting fixed_tool id accepting fixed_tool id "[]"]
  note inst2 = original_copy_is_never_overwritten
    [of no_original_world dark example_theme accepting fixed_tool id accepting fixed_tool id "[]"]
  from inst1 og
  have kept: "files (snd (init accepting fixed_tool id dark identity_world)) (fst (get_paths dark)) =
      Some example_theme"
    by blast
  from inst2 theme
  have again:
    "exists_file (snd (init accepting fixed_tool id dark no_original_world)) (fst (get_paths dark))
     \<and> files (snd (init accepting fixed_tool id dark
                      (snd (init accepting fixed_tool id dark no_original_world))))
         (fst (get_paths dark)) =
       files (snd (init accepting fixed_tool id dark no_original_world)) (fst (get_paths dark))"
    by blast
  from og theme kept again show ?thesis
    by blast
qed

section \<open>run and a missing theme file\<close>

text \<open>
  C2: with no theme file and a replacements file of the one line \<open>#aaa #bbb\<close>
  ended by a newline, \<open>run\<close> ends with the parameter error of the missing theme
  file only after it has rewritten the replacements file, to \<open>#aaa #cccccc\<close>;
  \<open>init\<close> and \<open>apply\<close> in the same world end with that error and change nothing.
\<close>

theorem run_without_theme_rewrites_replacements:
  "\<not> exists_file no_theme_world dark
   \<and> files no_theme_world replacements_dark = Some (''#aaa #bbb'' @ [newline])
   \<and> fst (run rich fixed_tool dark [''lighten 0.1''] no_theme_world) =
       Inl (BadParameter (ThemeFileNotFound dark))
   \<and> files (snd (run rich fixed_tool dark [''lighten 0.1''] no_theme_world)) replacements_dark =
       Some ''#aaa #cccccc''
   \<and> init rich fixed_tool id dark no_theme_world =
       (Inl (BadParameter (ThemeFileNotFound dark)), no_theme_world)
   \<and> apply_cmd rich dark no_theme_world =
       (Inl (BadParameter (ThemeFileNotFound dark)), no_theme_world)"
proof -
  have missing: "\<not> exists_file no_theme_world dark"
    by code_simp
  have before: "files no_theme_world replacements_dark = Some (''#aaa #bbb'' @ [newline])"
    by code_simp
  have outcome: "fst (run rich fixed_tool dark [''lighten 0.1''] no_theme_world) =
       Inl (BadParameter (ThemeFileNotFound dark))"
    by code_simp
  have after:
    "files (snd (run rich fixed_tool dark [''lighten 0.1''] no_theme_world)) replacements_dark =
       Some ''#aaa #cccccc''"
    by code_simp
  from missing have "init rich fixed_tool id dark no_theme_world =
       (Inl (BadParameter (ThemeFileNotFound dark)), no_theme_world)"
    by (simp add: init_def)
  moreover from missing have "apply_cmd rich dark no_theme_world =
       (Inl (BadParameter (ThemeFileNotFound dark)), no_theme_world)"
    by (simp add: apply_cmd_def)
  ultimately show ?thesis
    using missing before outcome after by simp
qed

section \<open>Reading the replacements file\<close>

lemma parse_line_without_space: "space \<notin> set line \<Longrightarrow> parse_line line = []"
  by (simp add: parse_line_def)

lemma split_once_two:
  "sep \<in> set s \<Longrightarrow>
   split_once sep s = [takeWhile (\<lambda>c. c \<noteq> sep) s, tl (dropWhile (\<lambda>c. c \<noteq> sep) s)]"
  by (simp add: split_once_def)

lemma parse_line_with_space:
  "space \<in> set line \<Longrightarrow>
   parse_line line =
     [(strip (takeWhile (\<lambda>c. c \<noteq> space) line), strip (tl (dropWhile (\<lambda>c. c \<noteq> space) line)))]"
  by (auto simp: parse_line_def split_once_two)

lemma concat_map_parse_line:
  "concat (map parse_line ls) = concat (map parse_line (filter (\<lambda>l. space \<in> set l) ls))"
  by (induction ls) (simp_all add: parse_line_without_space)


lemma strip_trimmed:
  "strip s = [] \<or> (\<not> is_space (hd (strip s)) \<and> \<not> is_space (last (strip s)))"
proof (cases "strip s = []")
  case True
  then show ?thesis by simp
next
  case False
  let ?u = "dropWhile is_space s"
  let ?r = "rev (dropWhile is_space (rev ?u))"
  have r: "strip s = ?r"
    by (simp add: strip_def lstrip_def rstrip_def)
  with False have d: "dropWhile is_space (rev ?u) \<noteq> []"
    by simp
  then have "\<not> is_space (hd (dropWhile is_space (rev ?u)))"
    by (rule hd_dropWhile)
  with d have last: "\<not> is_space (last ?r)"
    by (simp add: last_rev)
  have "?r @ rev (takeWhile is_space (rev ?u)) =
      rev (takeWhile is_space (rev ?u) @ dropWhile is_space (rev ?u))"
    by (simp only: rev_append)
  also have "\<dots> = rev (rev ?u)"
    by (simp only: takeWhile_dropWhile_id)
  finally have u: "?u = ?r @ rev (takeWhile is_space (rev ?u))"
    by simp
  with d have "hd ?u = hd ?r"
    by (metis hd_append2 rev_is_Nil_conv)
  moreover have "?u \<noteq> []"
  proof
    assume e: "?u = []"
    have "dropWhile is_space (rev ?u) = dropWhile is_space (rev [])"
      by (simp only: e)
    with d show False by simp
  qed
  then have "\<not> is_space (hd ?u)"
    by (rule hd_dropWhile)
  ultimately show ?thesis
    using last r by simp
qed

lemma strip_of_trimmed:
  assumes "t = [] \<or> (\<not> is_space (hd t) \<and> \<not> is_space (last t))"
  shows "strip t = t"
proof (cases t)
  case Nil
  then show ?thesis by (simp add: strip_def lstrip_def rstrip_def)
next
  case (Cons x xs)
  with assms have h: "\<not> is_space x" and l: "\<not> is_space (last t)"
    by simp_all
  from h Cons have "dropWhile is_space t = t" by simp
  moreover have "dropWhile is_space (rev t) = rev t"
  proof -
    from Cons obtain y ys where r: "rev t = y # ys"
      by (cases "rev t") auto
    then have "y = hd (rev t)" by simp
    also from Cons have "\<dots> = last t" by (simp add: hd_rev)
    finally have "\<not> is_space y" using l by simp
    then have "dropWhile is_space (y # ys) = y # ys" by simp
    then show ?thesis unfolding r .
  qed
  ultimately show ?thesis
    by (simp add: strip_def lstrip_def rstrip_def)
qed

lemma strip_strip: "strip (strip s) = strip s"
  using strip_trimmed [of s] by (rule strip_of_trimmed)

lemma set_strip: "set (strip s) \<subseteq> set s"
proof -
  have "set (strip s) \<subseteq> set (dropWhile is_space s)"
    using set_dropWhileD [of _ is_space "rev (dropWhile is_space s)"]
    by (auto simp: strip_def lstrip_def rstrip_def)
  also have "\<dots> \<subseteq> set s"
    using set_dropWhileD [of _ is_space s] by auto
  finally show ?thesis .
qed

lemma parse_lines_with_space:
  "concat (map parse_line (filter (\<lambda>line. space \<in> set line) ls)) =
   map (\<lambda>line. (strip (takeWhile (\<lambda>c. c \<noteq> space) line),
                  strip (tl (dropWhile (\<lambda>c. c \<noteq> space) line))))
     (filter (\<lambda>line. space \<in> set line) ls)"
  by (induction ls) (simp_all add: parse_line_with_space)

lemma space_is_space: "is_space space"
  by (simp add: is_space_def space_def)

text \<open>
  C3, as amended: the text is trimmed of white space at both ends and cut at
  its newlines. The pairs read are those of the resulting lines that contain a
  space character, in order; such a line is cut at its first space character
  into exactly two tokens, each trimmed of white space at both ends, and the
  first holds no space. A resulting line with no space character yields no pair
  and no error; so does, in particular, a line with no white space at all. (The
  first and the last line of a file are read without the white space that the
  trimming of the text has removed: the one line \<open>#aaa\<close> followed by a space
  yields no pair.)
\<close>

theorem read_splits_at_first_space:
  "parse_replacements text =
     map (\<lambda>line. (strip (takeWhile (\<lambda>c. c \<noteq> space) line),
                    strip (tl (dropWhile (\<lambda>c. c \<noteq> space) line))))
       (filter (\<lambda>line. space \<in> set line) (split_on newline (strip text)))
   \<and> list_all (\<lambda>(old, new). strip old = old \<and> strip new = new \<and> space \<notin> set old)
        (parse_replacements text)
   \<and> (space \<in> set line \<longrightarrow> length (split_once space line) = 2)
   \<and> (space \<notin> set line \<longrightarrow> parse_line line = [])
   \<and> (\<not> list_ex is_space line \<longrightarrow> parse_line line = [])"
proof (intro conjI impI)
  show eq: "parse_replacements text =
     map (\<lambda>line. (strip (takeWhile (\<lambda>c. c \<noteq> space) line),
                    strip (tl (dropWhile (\<lambda>c. c \<noteq> space) line))))
       (filter (\<lambda>line. space \<in> set line) (split_on newline (strip text)))"
    unfolding parse_replacements_def
    by (subst concat_map_parse_line) (rule parse_lines_with_space)
  have "space \<notin> set (strip (takeWhile (\<lambda>c. c \<noteq> space) l))" for l
    using set_strip [of "takeWhile (\<lambda>c. c \<noteq> space) l"] set_takeWhileD [of space "\<lambda>c. c \<noteq> space" l]
    by auto
  then show "list_all (\<lambda>(old, new). strip old = old \<and> strip new = new \<and> space \<notin> set old)
        (parse_replacements text)"
    unfolding eq by (simp add: list_all_iff strip_strip)
next
  assume "space \<in> set line"
  then show "length (split_once space line) = 2"
    by (simp add: split_once_two)
next
  assume "space \<notin> set line"
  then show "parse_line line = []"
    by (rule parse_line_without_space)
next
  assume "\<not> list_ex is_space line"
  with space_is_space have "space \<notin> set line"
    by (auto simp: list_ex_iff)
  then show "parse_line line = []"
    by (rule parse_line_without_space)
qed

theorem read_splits_at_first_space_witness:
  "parse_replacements untidy_text = [(''#aaa'', ''#aaa''), (''#bbb'', ''#bbb'')]
   \<and> space \<in> set ''#bbb   #bbb''
   \<and> length (split_once space ''#bbb   #bbb'') = 2
   \<and> space \<notin> set ''malformed''
   \<and> \<not> list_ex is_space ''malformed''
   \<and> parse_line ''malformed'' = []
   \<and> parse_replacements ''#aaa '' = []"
proof -
  have lines: "map (\<lambda>line. (strip (takeWhile (\<lambda>c. c \<noteq> space) line),
                    strip (tl (dropWhile (\<lambda>c. c \<noteq> space) line))))
       (filter (\<lambda>line. space \<in> set line) (split_on newline (strip untidy_text))) =
       [(''#aaa'', ''#aaa''), (''#bbb'', ''#bbb'')]"
    by code_simp
  have has: "space \<in> set ''#bbb   #bbb''"
    by code_simp
  have none: "space \<notin> set ''malformed''" "\<not> list_ex is_space ''malformed''"
    by code_simp+
  note inst = read_splits_at_first_space [of untidy_text "''#bbb   #bbb''"]
  from inst have "parse_replacements untidy_text =
     map (\<lambda>line. (strip (takeWhile (\<lambda>c. c \<noteq> space) line),
                    strip (tl (dropWhile (\<lambda>c. c \<noteq> space) line))))
       (filter (\<lambda>line. space \<in> set line) (split_on newline (strip untidy_text)))"
    by (rule conjunct1)
  then have a: "parse_replacements untidy_text = [(''#aaa'', ''#aaa''), (''#bbb'', ''#bbb'')]"
    unfolding lines .
  from inst has have b: "length (split_once space ''#bbb   #bbb'') = 2"
    by blast
  from read_splits_at_first_space [of untidy_text "''malformed''"] none
  have c: "parse_line ''malformed'' = []"
    by blast
  have trimmed: "map (\<lambda>line. (strip (takeWhile (\<lambda>c. c \<noteq> space) line),
                    strip (tl (dropWhile (\<lambda>c. c \<noteq> space) line))))
       (filter (\<lambda>line. space \<in> set line) (split_on newline (strip ''#aaa ''))) = []"
    by code_simp
  from read_splits_at_first_space [of "''#aaa ''" "[]"]
  have "parse_replacements ''#aaa '' =
     map (\<lambda>line. (strip (takeWhile (\<lambda>c. c \<noteq> space) line),
                    strip (tl (dropWhile (\<lambda>c. c \<noteq> space) line))))
       (filter (\<lambda>line. space \<in> set line) (split_on newline (strip ''#aaa '')))"
    by (rule conjunct1)
  then have d: "parse_replacements ''#aaa '' = []"
    unfolding trimmed .
  from a b c d has none show ?thesis
    by blast
qed

text \<open>
  C3 as stated fails: a line whose only white space is a tab is skipped, where
  the specification's reading cuts it into two tokens, and a line with a tab
  before its first space is cut at the space, not at the tab.
\<close>

theorem read_does_not_split_at_tab:
  "parse_replacements (''#aaa'' @ [tab] @ ''#bbb'') = []
   \<and> spec_parse_replacements (''#aaa'' @ [tab] @ ''#bbb'') = [(''#aaa'', ''#bbb'')]
   \<and> parse_replacements (''#aaa'' @ [tab] @ ''#bbb #ccc'') = [(''#aaa'' @ [tab] @ ''#bbb'', ''#ccc'')]
   \<and> spec_parse_replacements (''#aaa'' @ [tab] @ ''#bbb #ccc'') = [(''#aaa'', ''#bbb #ccc'')]"
  by code_simp

section \<open>The loop of run\<close>

lemma new_replacements_lines:
  "new_replacements rich pastel cmds pairs = (Inr lines, out) \<Longrightarrow>
   list_all2
     (\<lambda>(old, current) line.
        \<exists>final out'. reduce_commands rich pastel cmds current = (Inr final, out')
          \<and> line = old @ [space] @ final)
     pairs lines"
proof (induction pairs arbitrary: lines out)
  case Nil
  then show ?case by simp
next
  case (Cons p pairs)
  obtain old current where p: "p = (old, current)" by (cases p)
  from Cons.prems p obtain final out1 rest out2 where
    step: "reduce_commands rich pastel cmds current = (Inr final, out1)"
    and tail: "new_replacements rich pastel cmds pairs = (Inr rest, out2)"
    and lines: "lines = (old @ [space] @ final) # rest"
    by (auto split: if_splits prod.splits sum.splits)
  from Cons.IH [OF tail] step lines p show ?case
    by simp
qed

lemma run_rewrites:
  assumes "files w (snd (get_paths theme_file)) = Some text"
    and "printable rich (ReadingFrom (snd (get_paths theme_file)))"
    and "new_replacements rich pastel cmds (parse_replacements text) = (Inr lines, out)"
  shows "files (snd (run rich pastel theme_file cmds w)) (snd (get_paths theme_file)) =
     Some (join [newline] lines)"
proof -
  obtain og_file replacements_file where gp: "get_paths theme_file = (og_file, replacements_file)"
    by (cases "get_paths theme_file")
  from replacements_file_not_theme_file [of theme_file] gp have ne: "replacements_file \<noteq> theme_file"
    by simp
  from assms gp have f: "files w replacements_file = Some text"
    and r: "printable rich (ReadingFrom replacements_file)"
    by simp_all
  show ?thesis
    using f r ne assms(3)
    by (simp add: run_def gp exists_file_def read_replacements_def read_text_def
        console_print_def printable_def apply_cmd_keeps_others files_write_text files_printed)
qed



section \<open>run rewrites the replacements file\<close>




section \<open>A failing command is absorbed\<close>

lemma run_pastel_command_failure:
  assumes "\<not> list_ex has_nul (split_ws command @ [color])"
    and "fst (pastel (split_ws command @ [color]) None) \<noteq> 0"
  shows "run_pastel_command rich pastel color command =
     except_called_process_error rich color command
       (CalledProcessError (split_ws command @ [color])
          (fst (pastel (split_ws command @ [color]) None)))"
  using assms
  by (cases "pastel (split_ws command @ [color]) None")
    (simp add: run_pastel_command_def run_checked_def)

lemma run_pastel_command_returns_input:
  assumes "fst (pastel (split_ws command @ [color]) None) \<noteq> 0"
    and "run_pastel_command rich pastel color command = (Inr result, out)"
  shows "result = color"
proof (cases "list_ex has_nul (split_ws command @ [color])")
  case True
  with assms(2) show ?thesis
    by (simp add: run_pastel_command_def run_checked_def except_called_process_error_def)
next
  case False
  from run_pastel_command_failure
    [where command = command and color = color and pastel = pastel and rich = rich,
      OF False assms(1)] assms(2) show ?thesis
    by (simp add: except_called_process_error_def split: if_splits)
qed

lemma reduce_commands_all_fail:
  "list_all (\<lambda>command. fst (pastel (split_ws command @ [color]) None) \<noteq> 0) cmds \<Longrightarrow>
   reduce_commands rich pastel cmds color = (Inr final, out) \<Longrightarrow> final = color"
proof (induction cmds arbitrary: out)
  case Nil
  then show ?case by simp
next
  case (Cons command cmds)
  from Cons.prems(2) obtain result out1 out2 where
    step: "run_pastel_command rich pastel color command = (Inr result, out1)"
    and rest: "reduce_commands rich pastel cmds result = (Inr final, out2)"
    by (auto split: prod.splits sum.splits if_splits)
  from Cons.prems(1) step have "result = color"
    by (auto dest: run_pastel_command_returns_input)
  with Cons.IH [of out2] Cons.prems(1) rest show ?case
    by simp
qed

text \<open>
  C7, as amended. When no argument of the call holds a NUL character, the call
  of a command on a colour exits with a status other than 0 and the error line
  prints, \<open>run_pastel_command\<close> returns that colour and prints one error line
  naming the command and the colour; when the arrow line prints as well, the
  fold over the commands goes on from that colour with the commands that
  follow. When every command of the list exits with such a status on a colour,
  the fold, if it ends without an exception, returns that colour; and if the
  loop of \<open>run\<close> ends without an exception, the rewritten replacements file
  keeps that colour in the entries that hold it, and every other entry holds
  the result of the commands on its own colour.
\<close>

theorem failing_step_is_absorbed:
  "(\<not> list_ex has_nul (split_ws command @ [color])
      \<and> fst (pastel (split_ws command @ [color]) None) \<noteq> 0
      \<and> printable rich
          (PastelFailed command color
             (CalledProcessError (split_ws command @ [color])
                (fst (pastel (split_ws command @ [color]) None)))) \<longrightarrow>
      run_pastel_command rich pastel color command =
        (Inr color,
         [PastelFailed command color
            (CalledProcessError (split_ws command @ [color])
               (fst (pastel (split_ws command @ [color]) None)))])
      \<and> (printable rich (Arrow color) \<longrightarrow>
           reduce_commands rich pastel (command # cmds) color =
             (case reduce_commands rich pastel cmds color of
                (r, out') \<Rightarrow>
                  (r, PastelFailed command color
                        (CalledProcessError (split_ws command @ [color])
                           (fst (pastel (split_ws command @ [color]) None)))
                      # Arrow color # out'))))
   \<and> (list_all (\<lambda>command. fst (pastel (split_ws command @ [color]) None) \<noteq> 0) cmds
      \<and> reduce_commands rich pastel cmds color = (Inr final, out) \<longrightarrow>
      final = color)
   \<and> (list_all (\<lambda>command. fst (pastel (split_ws command @ [color]) None) \<noteq> 0) cmds
      \<and> files w (snd (get_paths theme_file)) = Some text
      \<and> printable rich (ReadingFrom (snd (get_paths theme_file)))
      \<and> new_replacements rich pastel cmds (parse_replacements text) = (Inr lines, out) \<longrightarrow>
      files (snd (run rich pastel theme_file cmds w)) (snd (get_paths theme_file)) =
        Some (join [newline] lines)
      \<and> list_all2
          (\<lambda>(old, current) line.
             if current = color then line = old @ [space] @ color
             else (\<exists>final out'. reduce_commands rich pastel cmds current = (Inr final, out')
                     \<and> line = old @ [space] @ final))
          (parse_replacements text) lines)"
proof (intro conjI impI)
  assume h: "\<not> list_ex has_nul (split_ws command @ [color])
      \<and> fst (pastel (split_ws command @ [color]) None) \<noteq> 0
      \<and> printable rich
          (PastelFailed command color
             (CalledProcessError (split_ws command @ [color])
                (fst (pastel (split_ws command @ [color]) None))))"
  then have n: "\<not> list_ex has_nul (split_ws command @ [color])"
    and s: "fst (pastel (split_ws command @ [color]) None) \<noteq> 0"
    by simp_all
  from run_pastel_command_failure
    [where command = command and color = color and pastel = pastel and rich = rich, OF n s] h
  show step: "run_pastel_command rich pastel color command =
        (Inr color,
         [PastelFailed command color
            (CalledProcessError (split_ws command @ [color])
               (fst (pastel (split_ws command @ [color]) None)))])"
    by (simp add: except_called_process_error_def)
  assume "printable rich (Arrow color)"
  then show "reduce_commands rich pastel (command # cmds) color =
             (case reduce_commands rich pastel cmds color of
                (r, out') \<Rightarrow>
                  (r, PastelFailed command color
                        (CalledProcessError (split_ws command @ [color])
                           (fst (pastel (split_ws command @ [color]) None)))
                      # Arrow color # out'))"
    by (simp add: step)
next
  assume "list_all (\<lambda>command. fst (pastel (split_ws command @ [color]) None) \<noteq> 0) cmds
      \<and> reduce_commands rich pastel cmds color = (Inr final, out)"
  then have a: "list_all (\<lambda>command. fst (pastel (split_ws command @ [color]) None) \<noteq> 0) cmds"
    and r: "reduce_commands rich pastel cmds color = (Inr final, out)"
    by simp_all
  from a r show "final = color"
    by (rule reduce_commands_all_fail)
next
  assume h: "list_all (\<lambda>command. fst (pastel (split_ws command @ [color]) None) \<noteq> 0) cmds
      \<and> files w (snd (get_paths theme_file)) = Some text
      \<and> printable rich (ReadingFrom (snd (get_paths theme_file)))
      \<and> new_replacements rich pastel cmds (parse_replacements text) = (Inr lines, out)"
  then have a: "list_all (\<lambda>command. fst (pastel (split_ws command @ [color]) None) \<noteq> 0) cmds"
    and f: "files w (snd (get_paths theme_file)) = Some text"
    and r: "printable rich (ReadingFrom (snd (get_paths theme_file)))"
    and l: "new_replacements rich pastel cmds (parse_replacements text) = (Inr lines, out)"
    by simp_all
  from f r l show "files (snd (run rich pastel theme_file cmds w)) (snd (get_paths theme_file)) =
        Some (join [newline] lines)"
    by (rule run_rewrites)
  have "list_all2
          (\<lambda>(old, current) line.
             \<exists>final out'. reduce_commands rich pastel cmds current = (Inr final, out')
               \<and> line = old @ [space] @ final)
          (parse_replacements text) lines"
    using l by (rule new_replacements_lines)
  then show "list_all2
          (\<lambda>(old, current) line.
             if current = color then line = old @ [space] @ color
             else (\<exists>final out'. reduce_commands rich pastel cmds current = (Inr final, out')
                     \<and> line = old @ [space] @ final))
          (parse_replacements text) lines"
    by (rule list_all2_mono)
      (auto dest: reduce_commands_all_fail
         [where pastel = pastel and color = color and cmds = cmds and rich = rich, OF a])
qed

theorem failing_step_is_absorbed_witness:
  "\<not> list_ex has_nul (split_ws ''lighten 0.1'' @ [''#bbb''])
   \<and> fst (picky_tool ''#bbb'' (split_ws ''lighten 0.1'' @ [''#bbb'']) None) \<noteq> 0
   \<and> run_pastel_command accepting (picky_tool ''#bbb'') ''#bbb'' ''lighten 0.1'' =
       (Inr ''#bbb'',
        [PastelFailed ''lighten 0.1'' ''#bbb''
           (CalledProcessError [''lighten'', ''0.1'', ''#bbb''] 1)])
   \<and> list_all (\<lambda>command. fst (picky_tool ''#bbb'' (split_ws command @ [''#bbb'']) None) \<noteq> 0)
        [''lighten 0.1'']
   \<and> files failing_world (snd (get_paths dark)) = Some failing_text
   \<and> printable accepting (ReadingFrom (snd (get_paths dark)))
   \<and> new_replacements accepting (picky_tool ''#bbb'') [''lighten 0.1'']
         (parse_replacements failing_text) =
       (Inr [''#aaa #cccccc'', ''#bbb #bbb''],
        [Processing ''#aaa'', Arrow ''#cccccc'', EndOfLine, Processing ''#bbb'',
         PastelFailed ''lighten 0.1'' ''#bbb''
           (CalledProcessError [''lighten'', ''0.1'', ''#bbb''] 1),
         Arrow ''#bbb'', EndOfLine])
   \<and> files (snd (run accepting (picky_tool ''#bbb'') dark [''lighten 0.1''] failing_world))
         (snd (get_paths dark)) =
       Some (''#aaa #cccccc'' @ [newline] @ ''#bbb #bbb'')"
proof -
  have plain: "\<not> list_ex has_nul (split_ws ''lighten 0.1'' @ [''#bbb''])"
    by code_simp
  have fails: "fst (picky_tool ''#bbb'' (split_ws ''lighten 0.1'' @ [''#bbb'']) None) \<noteq> 0"
    by code_simp
  have line: "printable accepting
      (PastelFailed ''lighten 0.1'' ''#bbb''
         (CalledProcessError (split_ws ''lighten 0.1'' @ [''#bbb''])
            (fst (picky_tool ''#bbb'' (split_ws ''lighten 0.1'' @ [''#bbb'']) None))))"
    by code_simp
  have all_fail:
    "list_all (\<lambda>command. fst (picky_tool ''#bbb'' (split_ws command @ [''#bbb'']) None) \<noteq> 0)
       [''lighten 0.1'']"
    by code_simp
  have before: "files failing_world (snd (get_paths dark)) = Some failing_text"
    by code_simp
  have reading: "printable accepting (ReadingFrom (snd (get_paths dark)))"
    by code_simp
  have loop:
    "new_replacements accepting (picky_tool ''#bbb'') [''lighten 0.1'']
         (parse_replacements failing_text) =
       (Inr [''#aaa #cccccc'', ''#bbb #bbb''],
        [Processing ''#aaa'', Arrow ''#cccccc'', EndOfLine, Processing ''#bbb'',
         PastelFailed ''lighten 0.1'' ''#bbb''
           (CalledProcessError [''lighten'', ''0.1'', ''#bbb''] 1),
         Arrow ''#bbb'', EndOfLine])"
    by code_simp
  have joined: "join [newline] [''#aaa #cccccc'', ''#bbb #bbb''] =
      ''#aaa #cccccc'' @ [newline] @ ''#bbb #bbb''"
    by code_simp
  have args: "split_ws ''lighten 0.1'' @ [''#bbb''] = [''lighten'', ''0.1'', ''#bbb'']"
    by code_simp
  have status: "fst (picky_tool ''#bbb'' [''lighten'', ''0.1'', ''#bbb''] None) = 1"
    by code_simp
  note inst = failing_step_is_absorbed
    [where command = "''lighten 0.1''" and color = "''#bbb''" and pastel = "picky_tool ''#bbb''"
      and rich = accepting and cmds = "[''lighten 0.1'']" and w = failing_world
      and theme_file = dark and lines = "[''#aaa #cccccc'', ''#bbb #bbb'']"
      and out = "[Processing ''#aaa'', Arrow ''#cccccc'', EndOfLine, Processing ''#bbb'',
         PastelFailed ''lighten 0.1'' ''#bbb''
           (CalledProcessError [''lighten'', ''0.1'', ''#bbb''] 1),
         Arrow ''#bbb'', EndOfLine]", of _ failing_text]
  from inst plain fails line
  have "run_pastel_command accepting (picky_tool ''#bbb'') ''#bbb'' ''lighten 0.1'' =
        (Inr ''#bbb'',
         [PastelFailed ''lighten 0.1'' ''#bbb''
            (CalledProcessError (split_ws ''lighten 0.1'' @ [''#bbb''])
               (fst (picky_tool ''#bbb'' (split_ws ''lighten 0.1'' @ [''#bbb'']) None)))])"
    by blast
  then have step: "run_pastel_command accepting (picky_tool ''#bbb'') ''#bbb'' ''lighten 0.1'' =
       (Inr ''#bbb'',
        [PastelFailed ''lighten 0.1'' ''#bbb''
           (CalledProcessError [''lighten'', ''0.1'', ''#bbb''] 1)])"
    unfolding args status .
  from inst all_fail before reading loop
  have "files (snd (run accepting (picky_tool ''#bbb'') dark [''lighten 0.1''] failing_world))
         (snd (get_paths dark)) =
       Some (join [newline] [''#aaa #cccccc'', ''#bbb #bbb''])"
    by blast
  then have after:
    "files (snd (run accepting (picky_tool ''#bbb'') dark [''lighten 0.1''] failing_world))
         (snd (get_paths dark)) =
       Some (''#aaa #cccccc'' @ [newline] @ ''#bbb #bbb'')"
    unfolding joined .
  from plain fails step all_fail before reading loop after show ?thesis
    by blast
qed

text \<open>
  C7 as stated fails. With the two commands \<open>lighten 0.1\<close> and \<open>saturate 0.2\<close>,
  the first failing on \<open>#bbb\<close>, \<open>run\<close> ends normally and the entry of \<open>#bbb\<close>
  is rewritten with \<open>#cccccc\<close>: the second command has changed it. And when
  the renderer refuses the error line, as it does for a colour that is a
  closing tag, the step ends with \<open>MarkupError\<close> and returns no colour.
\<close>

theorem failing_operation_can_change_entry:
  "fst (picky_tool ''#bbb'' (split_ws ''lighten 0.1'' @ [''#bbb'']) None) \<noteq> 0
   \<and> files failing_world replacements_dark = Some failing_text
   \<and> parse_replacements failing_text = [(''#aaa'', ''#aaa''), (''#bbb'', ''#bbb'')]
   \<and> fst (run accepting (picky_tool ''#bbb'') dark [''lighten 0.1'', ''saturate 0.2'']
            failing_world) = Inr ()
   \<and> files (snd (run accepting (picky_tool ''#bbb'') dark [''lighten 0.1'', ''saturate 0.2'']
                   failing_world)) replacements_dark =
       Some (''#aaa #cccccc'' @ [newline] @ ''#bbb #cccccc'')
   \<and> fst (picky_tool ''[/]'' (split_ws ''lighten 0.1'' @ [''[/]'']) None) \<noteq> 0
   \<and> run_pastel_command
         (refusing [PastelFailed ''lighten 0.1'' ''[/]''
                      (CalledProcessError [''lighten'', ''0.1'', ''[/]''] 1)])
         (picky_tool ''[/]'') ''[/]'' ''lighten 0.1'' =
       (Inl MarkupError, [])"
  by code_simp

section \<open>Extraction aborts when the tool fails\<close>

lemma format_all_failure:
  "\<not> list_all (\<lambda>c. c = [] \<or> fst (pastel [''format'', ''hex''] (Some c)) = 0) cs \<Longrightarrow>
   \<exists>status. status \<noteq> 0 \<and> format_all pastel cs = Inl (CalledProcessError [''format'', ''hex''] status)"
proof (induction cs)
  case Nil
  then show ?case by simp
next
  case (Cons c cs)
  show ?case
  proof (cases "c = []")
    case True
    with Cons show ?thesis by simp
  next
    case False
    obtain status out where call: "pastel [''format'', ''hex''] (Some c) = (status, out)"
      by (cases "pastel [''format'', ''hex''] (Some c)")
    show ?thesis
    proof (cases "status = 0")
      case True
      with Cons False call obtain status' where
        "status' \<noteq> 0" "format_all pastel cs = Inl (CalledProcessError [''format'', ''hex''] status')"
        by auto
      with False call True show ?thesis
        by (auto simp: run_checked_def has_nul_def)
    next
      case nonzero: False
      with False call show ?thesis
        by (auto simp: run_checked_def has_nul_def)
    qed
  qed
qed

text \<open>
  C8: when colours were found, \<open>extract_colors\<close> ends with the
  \<open>CalledProcessError\<close> of the first call that exits with a status other than 0:
  the sort by hue, else the sort by luminance, else the first failing format of
  a line that is not empty. It returns a list only when the two sorts and the
  format of every such line have exited with status 0.
\<close>

theorem extraction_aborts_on_failure:
  "(set_order (remdups (findall_colors content)) \<noteq> []
      \<and> fst (pastel [''sort-by'', ''hue'']
                (Some (join [newline] (set_order (remdups (findall_colors content)))))) \<noteq> 0 \<longrightarrow>
      extract_colors pastel set_order content =
        Inl (CalledProcessError [''sort-by'', ''hue'']
               (fst (pastel [''sort-by'', ''hue'']
                  (Some (join [newline] (set_order (remdups (findall_colors content)))))))))
   \<and> (set_order (remdups (findall_colors content)) \<noteq> []
      \<and> pastel [''sort-by'', ''hue'']
           (Some (join [newline] (set_order (remdups (findall_colors content))))) = (0, hue)
      \<and> fst (pastel [''sort-by'', ''luminance'']
                (Some (join [newline] (split_on newline (strip hue))))) \<noteq> 0 \<longrightarrow>
      extract_colors pastel set_order content =
        Inl (CalledProcessError [''sort-by'', ''luminance'']
               (fst (pastel [''sort-by'', ''luminance'']
                  (Some (join [newline] (split_on newline (strip hue))))))))
   \<and> (set_order (remdups (findall_colors content)) \<noteq> []
      \<and> pastel [''sort-by'', ''hue'']
           (Some (join [newline] (set_order (remdups (findall_colors content))))) = (0, hue)
      \<and> pastel [''sort-by'', ''luminance'']
           (Some (join [newline] (split_on newline (strip hue)))) = (0, lum)
      \<and> \<not> list_all (\<lambda>c. c = [] \<or> fst (pastel [''format'', ''hex''] (Some c)) = 0)
             (split_on newline (strip lum)) \<longrightarrow>
      (\<exists>status. status \<noteq> 0
         \<and> extract_colors pastel set_order content =
             Inl (CalledProcessError [''format'', ''hex''] status)))
   \<and> (extract_colors pastel set_order content = Inr result
      \<and> set_order (remdups (findall_colors content)) \<noteq> [] \<longrightarrow>
      (\<exists>hue lum.
         pastel [''sort-by'', ''hue'']
           (Some (join [newline] (set_order (remdups (findall_colors content))))) = (0, hue)
         \<and> pastel [''sort-by'', ''luminance'']
             (Some (join [newline] (split_on newline (strip hue)))) = (0, lum)
         \<and> list_all (\<lambda>c. c = [] \<or> fst (pastel [''format'', ''hex''] (Some c)) = 0)
             (split_on newline (strip lum))))"
proof (intro conjI impI)
  assume h: "set_order (remdups (findall_colors content)) \<noteq> []
      \<and> fst (pastel [''sort-by'', ''hue'']
                (Some (join [newline] (set_order (remdups (findall_colors content)))))) \<noteq> 0"
  obtain s1 out where "pastel [''sort-by'', ''hue'']
           (Some (join [newline] (set_order (remdups (findall_colors content))))) = (s1, out)"
    by (cases "pastel [''sort-by'', ''hue'']
           (Some (join [newline] (set_order (remdups (findall_colors content)))))")
  with h show "extract_colors pastel set_order content =
        Inl (CalledProcessError [''sort-by'', ''hue'']
               (fst (pastel [''sort-by'', ''hue'']
                  (Some (join [newline] (set_order (remdups (findall_colors content))))))))"
    by (simp add: extract_colors_def Let_def run_checked_def has_nul_def)
next
  assume h: "set_order (remdups (findall_colors content)) \<noteq> []
      \<and> pastel [''sort-by'', ''hue'']
           (Some (join [newline] (set_order (remdups (findall_colors content))))) = (0, hue)
      \<and> fst (pastel [''sort-by'', ''luminance'']
                (Some (join [newline] (split_on newline (strip hue))))) \<noteq> 0"
  obtain s2 out where "pastel [''sort-by'', ''luminance'']
             (Some (join [newline] (split_on newline (strip hue)))) = (s2, out)"
    by (cases "pastel [''sort-by'', ''luminance'']
             (Some (join [newline] (split_on newline (strip hue))))")
  with h show "extract_colors pastel set_order content =
        Inl (CalledProcessError [''sort-by'', ''luminance'']
               (fst (pastel [''sort-by'', ''luminance'']
                  (Some (join [newline] (split_on newline (strip hue)))))))"
    by (simp add: extract_colors_def Let_def run_checked_def has_nul_def)
next
  assume h: "set_order (remdups (findall_colors content)) \<noteq> []
      \<and> pastel [''sort-by'', ''hue'']
           (Some (join [newline] (set_order (remdups (findall_colors content))))) = (0, hue)
      \<and> pastel [''sort-by'', ''luminance'']
           (Some (join [newline] (split_on newline (strip hue)))) = (0, lum)
      \<and> \<not> list_all (\<lambda>c. c = [] \<or> fst (pastel [''format'', ''hex''] (Some c)) = 0)
             (split_on newline (strip lum))"
  then have "extract_colors pastel set_order content = format_all pastel (split_on newline (strip lum))"
    by (simp add: extract_colors_def Let_def run_checked_def has_nul_def)
  with h format_all_failure [of pastel "split_on newline (strip lum)"]
  show "\<exists>status. status \<noteq> 0
         \<and> extract_colors pastel set_order content =
             Inl (CalledProcessError [''format'', ''hex''] status)"
    by simp
next
  assume h: "extract_colors pastel set_order content = Inr result
      \<and> set_order (remdups (findall_colors content)) \<noteq> []"
  obtain s1 hue where hue: "pastel [''sort-by'', ''hue'']
           (Some (join [newline] (set_order (remdups (findall_colors content))))) = (s1, hue)"
    by (cases "pastel [''sort-by'', ''hue'']
           (Some (join [newline] (set_order (remdups (findall_colors content)))))")
  obtain s2 lum where lum: "pastel [''sort-by'', ''luminance'']
             (Some (join [newline] (split_on newline (strip hue)))) = (s2, lum)"
    by (cases "pastel [''sort-by'', ''luminance'']
             (Some (join [newline] (split_on newline (strip hue))))")
  from h have ne: "set_order (remdups (findall_colors content)) \<noteq> []"
    and ex: "extract_colors pastel set_order content = Inr result"
    by simp_all
  from ne ex hue have s1: "s1 = 0"
    by (auto simp: extract_colors_def Let_def run_checked_def has_nul_def split: if_splits)
  from ne ex hue lum s1 have s2: "s2 = 0"
    by (auto simp: extract_colors_def Let_def run_checked_def has_nul_def split: if_splits)
  from ne hue lum s1 s2
  have "extract_colors pastel set_order content = format_all pastel (split_on newline (strip lum))"
    by (simp add: extract_colors_def Let_def run_checked_def has_nul_def)
  with ex have "format_all pastel (split_on newline (strip lum)) = Inr result"
    by simp
  with format_all_failure [of pastel "split_on newline (strip lum)"]
  have "list_all (\<lambda>c. c = [] \<or> fst (pastel [''format'', ''hex''] (Some c)) = 0)
             (split_on newline (strip lum))"
    by auto
  with hue lum s1 s2 show "\<exists>hue lum.
         pastel [''sort-by'', ''hue'']
           (Some (join [newline] (set_order (remdups (findall_colors content))))) = (0, hue)
         \<and> pastel [''sort-by'', ''luminance'']
             (Some (join [newline] (split_on newline (strip hue)))) = (0, lum)
         \<and> list_all (\<lambda>c. c = [] \<or> fst (pastel [''format'', ''hex''] (Some c)) = 0)
             (split_on newline (strip lum))"
    by blast
qed

theorem extraction_aborts_on_failure_witness:
  "extract_colors (tool_failing_on [''sort-by'', ''hue'']) id example_theme =
     Inl (CalledProcessError [''sort-by'', ''hue''] 2)
   \<and> extract_colors (tool_failing_on [''sort-by'', ''luminance'']) id example_theme =
     Inl (CalledProcessError [''sort-by'', ''luminance''] 2)
   \<and> (\<exists>status. status \<noteq> 0
        \<and> extract_colors (tool_failing_on [''format'', ''hex'']) id example_theme =
            Inl (CalledProcessError [''format'', ''hex''] status))
   \<and> extract_colors (tool_failing_on []) id example_theme = Inr [''#112233'']
   \<and> list_all (\<lambda>c. c = [] \<or> fst (tool_failing_on [] [''format'', ''hex''] (Some c)) = 0)
        (split_on newline (strip (''#112233'' @ [newline])))"
proof -
  have colors: "id (remdups (findall_colors example_theme)) = [''#112233'']"
    by code_simp
  have input: "join [newline] [''#112233''] = ''#112233''"
    by code_simp
  have lines: "split_on newline (strip (''#112233'' @ [newline])) = [''#112233'']"
    by code_simp
  have hue_fails:
    "fst (tool_failing_on [''sort-by'', ''hue''] [''sort-by'', ''hue''] (Some ''#112233'')) = 2"
    by code_simp
  have lum_hue:
    "tool_failing_on [''sort-by'', ''luminance''] [''sort-by'', ''hue''] (Some ''#112233'') =
       (0, ''#112233'' @ [newline])"
    by code_simp
  have lum_fails:
    "fst (tool_failing_on [''sort-by'', ''luminance''] [''sort-by'', ''luminance'']
            (Some ''#112233'')) = 2"
    by code_simp
  have fmt_hue:
    "tool_failing_on [''format'', ''hex''] [''sort-by'', ''hue''] (Some ''#112233'') =
       (0, ''#112233'' @ [newline])"
    by code_simp
  have fmt_lum:
    "tool_failing_on [''format'', ''hex''] [''sort-by'', ''luminance''] (Some ''#112233'') =
       (0, ''#112233'' @ [newline])"
    by code_simp
  have fmt_fails:
    "\<not> list_all (\<lambda>c. c = [] \<or> fst (tool_failing_on [''format'', ''hex''] [''format'', ''hex''] (Some c)) = 0)
         [''#112233'']"
    by code_simp
  have ok: "extract_colors (tool_failing_on []) id example_theme = Inr [''#112233'']"
    by code_simp
  have first: "extract_colors (tool_failing_on [''sort-by'', ''hue'']) id example_theme =
     Inl (CalledProcessError [''sort-by'', ''hue''] 2)"
    using extraction_aborts_on_failure
      [of id example_theme "tool_failing_on [''sort-by'', ''hue'']" "[]" "[]" "[]"]
    unfolding colors input hue_fails by simp
  have second: "extract_colors (tool_failing_on [''sort-by'', ''luminance'']) id example_theme =
     Inl (CalledProcessError [''sort-by'', ''luminance''] 2)"
    using extraction_aborts_on_failure
      [of id example_theme "tool_failing_on [''sort-by'', ''luminance'']"
        "''#112233'' @ [newline]" "[]" "[]"]
    unfolding colors input lum_hue lines lum_fails by simp
  have third: "\<exists>status. status \<noteq> 0
        \<and> extract_colors (tool_failing_on [''format'', ''hex'']) id example_theme =
            Inl (CalledProcessError [''format'', ''hex''] status)"
    using extraction_aborts_on_failure
      [of id example_theme "tool_failing_on [''format'', ''hex'']"
        "''#112233'' @ [newline]" "''#112233'' @ [newline]" "[]"] fmt_fails
    unfolding colors input fmt_hue fmt_lum lines by simp
  have fourth: "list_all (\<lambda>c. c = [] \<or> fst (tool_failing_on [] [''format'', ''hex''] (Some c)) = 0)
        (split_on newline (strip (''#112233'' @ [newline])))"
    using extraction_aborts_on_failure
      [of id example_theme "tool_failing_on []" "[]" "[]" "[''#112233'']"] ok
    unfolding colors input lines
    by (simp add: tool_failing_on_def)
  from first second third ok fourth show ?thesis
    by blast
qed

section \<open>What a substitution leaves behind\<close>

lemma lower_char_hash: "lower_char c = CHR ''#'' \<Longrightarrow> c = CHR ''#''"
proof (rule ccontr)
  assume eq: "lower_char c = CHR ''#''" and ne: "c \<noteq> CHR ''#''"
  define n where "n = (of_char c :: nat)"
  from eq ne have up: "(0x41 \<le> n \<and> n \<le> 0x5A) \<or> (0xC0 \<le> n \<and> n \<le> 0xDE \<and> n \<noteq> 0xD7)"
    and img: "char_of (n + 32) = CHR ''#''"
    by (auto simp: lower_char_def Let_def n_def split: if_splits)
  from img have "(of_char (char_of (n + 32)) :: nat) = of_char (CHR ''#'')"
    by simp
  then have "(n + 32) mod 256 = 35"
    by simp
  with up show False
    by auto
qed

lemma lower_char_of_hash: "lower_char (CHR ''#'') = CHR ''#''"
  by (simp add: lower_char_def)

lemma is_hex_not_hash: "\<not> is_hex (CHR ''#'')"
  by (simp add: is_hex_def between_def)

lemma is_hex_not_backslash: "\<not> is_hex backslash"
  by (simp add: is_hex_def between_def backslash_def)

lemma is_hex_not_bracket: "\<not> is_hex (CHR ''['')"
  by (simp add: is_hex_def between_def)

lemma is_color_no_bracket:
  assumes "is_color s"
  shows "\<not> has_bracket s"
proof -
  from assms obtain h where s: "s = CHR ''#'' # h" and hex: "list_all is_hex h"
    by (auto simp: is_color_def split: list.splits)
  from hex have "CHR ''['' \<notin> set h"
    using is_hex_not_bracket by (auto simp: list_all_iff)
  with s show ?thesis
    by (simp add: has_bracket_def)
qed

lemma is_color_shape:
  assumes "is_color s"
  obtains h where "s = CHR ''#'' # h" and "CHR ''#'' \<notin> set h" and "backslash \<notin> set s"
proof -
  from assms obtain h where s: "s = CHR ''#'' # h" and hex: "list_all is_hex h"
    by (auto simp: is_color_def split: list.splits)
  from hex have "CHR ''#'' \<notin> set h" "backslash \<notin> set h"
    using is_hex_not_hash is_hex_not_backslash by (auto simp: list_all_iff)
  with s that show thesis
    by (auto simp: backslash_def)
qed

lemma parse_template_literal:
  "backslash \<notin> set new \<Longrightarrow> parse_template new = Some (map Literal new)"
  by (induction new) auto

lemma expand_literal: "expand (map Literal new) m = new"
  by (induction new) auto

lemma re_sub_literal:
  "backslash \<notin> set new \<Longrightarrow> re_sub old new content = Inr (sub_scan old (map Literal new) content)"
  by (simp add: re_sub_def parse_template_literal)

lemma match_here_append:
  "length old \<le> length s \<Longrightarrow> match_here old (s @ t) = match_here old s"
  by (simp add: match_here_def)

lemma sub_scan_first_occurrence:
  assumes "old \<noteq> []" and "length m = length old" and "lower m = lower old"
    and "\<not> contains_ci old (pre @ butlast m)"
  shows "sub_scan old ps (pre @ m @ post) = pre @ expand ps m @ sub_scan old ps post"
  using assms(4)
proof (induction pre)
  case Nil
  from assms obtain c cs where m: "m = c # cs"
    by (cases m) auto
  have tk: "take (length old) (m @ post) = m"
    by (simp add: assms(2) [symmetric])
  with assms(2,3) have "match_here old (m @ post)"
    by (simp add: match_here_def)
  moreover have "drop (length old - 1) (cs @ post) = post"
    using m by (simp add: assms(2) [symmetric])
  ultimately show ?case
    using assms(1) m tk by simp
next
  case (Cons p pre)
  from Cons.prems have no: "\<not> match_here old (p # pre @ butlast m)"
    and rest: "\<not> contains_ci old (pre @ butlast m)"
    by simp_all
  from assms have "length old \<le> length (p # pre @ butlast m)"
    by simp
  from match_here_append [OF this, of "[last m] @ post"] assms no
  have "\<not> match_here old (p # pre @ m @ post)"
    by (cases m rule: rev_cases) auto
  with Cons.IH [OF rest] assms(1) show ?case
    by simp
qed

lemma contains_ci_append:
  "contains_ci old (xs @ ys) \<Longrightarrow>
   contains_ci old ys \<or> (\<exists>i<length xs. match_here old (drop i xs @ ys))"
proof (induction xs)
  case Nil
  then show ?case by simp
next
  case (Cons x xs)
  from Cons.prems have "match_here old (x # xs @ ys) \<or> contains_ci old (xs @ ys)"
    by simp
  then show ?case
  proof
    assume "match_here old (x # xs @ ys)"
    then have "match_here old (drop 0 (x # xs) @ ys)" by simp
    then show ?thesis by blast
  next
    assume "contains_ci old (xs @ ys)"
    with Cons.IH have "contains_ci old ys \<or> (\<exists>i<length xs. match_here old (drop i xs @ ys))"
      by simp
    then show ?thesis
    proof
      assume "contains_ci old ys"
      then show ?thesis by simp
    next
      assume "\<exists>i<length xs. match_here old (drop i xs @ ys)"
      then obtain i where "i < length xs" "match_here old (drop i xs @ ys)" by blast
      then have "Suc i < length (x # xs)" "match_here old (drop (Suc i) (x # xs) @ ys)"
        by simp_all
      then show ?thesis by blast
    qed
  qed
qed

lemma match_here_Cons:
  "match_here (a # o') (c # r) = (lower_char c = lower_char a \<and> match_here o' r)"
  by (auto simp: match_here_def lower_def)

lemma match_here_no_hash:
  assumes "match_here o' r" and "CHR ''#'' \<notin> set o'"
  shows "CHR ''#'' \<notin> set (take (length o') r)"
proof
  assume "CHR ''#'' \<in> set (take (length o') r)"
  then have "lower_char (CHR ''#'') \<in> set (lower (take (length o') r))"
    by (simp add: lower_def)
  with assms(1) have "CHR ''#'' \<in> set (lower o')"
    by (simp add: match_here_def lower_char_of_hash)
  then obtain y where "y \<in> set o'" "lower_char y = CHR ''#''"
    by (auto simp: lower_def)
  with assms(2) lower_char_hash show False
    by blast
qed

lemma sub_scan_keeps_front:
  assumes "old \<noteq> []"
  shows "k \<le> length (sub_scan old (map Literal (CHR ''#'' # n)) cs) \<Longrightarrow>
         CHR ''#'' \<notin> set (take k (sub_scan old (map Literal (CHR ''#'' # n)) cs)) \<Longrightarrow>
         take k (sub_scan old (map Literal (CHR ''#'' # n)) cs) = take k cs"
proof (induction cs arbitrary: k)
  case Nil
  with assms show ?case by simp
next
  case (Cons c cs)
  show ?case
  proof (cases k)
    case 0
    then show ?thesis by simp
  next
    case (Suc k')
    show ?thesis
    proof (cases "match_here old (c # cs)")
      case True
      with assms Cons.prems Suc show ?thesis
        by simp
    next
      case False
      with assms Cons.prems Suc Cons.IH [of k'] show ?thesis
        by simp
    qed
  qed
qed

lemma match_here_shorter:
  assumes "match_here old (new @ r)" and "length new < length old"
  shows "match_here new old"
proof -
  from assms(1) have "lower (take (length old) (new @ r)) = lower old"
    by (simp add: match_here_def)
  then have "take (length new) (lower (take (length old) (new @ r))) = take (length new) (lower old)"
    by simp
  with assms(2) have "lower new = lower (take (length new) old)"
    by (simp add: lower_def take_map min_def)
  with assms(2) show ?thesis
    by (simp add: match_here_def)
qed

lemma sub_scan_no_occurrence:
  assumes old: "old = CHR ''#'' # o'" and o': "CHR ''#'' \<notin> set o'"
    and n: "CHR ''#'' \<notin> set n"
    and p1: "\<not> match_here old (CHR ''#'' # n)"
    and p2: "\<not> match_here (CHR ''#'' # n) old"
  shows "\<not> contains_ci old (sub_scan old (map Literal (CHR ''#'' # n)) content)"
proof (induction content rule: length_induct)
  case (1 content)
  let ?new = "CHR ''#'' # n"
  let ?S = "sub_scan old (map Literal ?new)"
  from old have ne: "old \<noteq> []" by simp
  show ?case
  proof (cases content)
    case Nil
    with ne show ?thesis
      by (simp add: match_here_def)
  next
    case (Cons c cs)
    show ?thesis
    proof (cases "match_here old (c # cs)")
      case True
      let ?rest = "?S (drop (length old - 1) cs)"
      from True ne Cons have S: "?S content = ?new @ ?rest"
        by (simp add: expand_literal)
      have "length (drop (length old - 1) cs) < length content"
        using Cons by simp
      with "1.IH" have tail: "\<not> contains_ci old ?rest"
        by blast
      show ?thesis
      proof
        assume "contains_ci old (?S content)"
        with S contains_ci_append [of old ?new ?rest] tail
        obtain i where i: "i < length ?new" and m: "match_here old (drop i ?new @ ?rest)"
          by auto
        show False
        proof (cases i)
          case 0
          with m have front: "match_here old (?new @ ?rest)" by simp
          show False
          proof (cases "length old \<le> length ?new")
            case True
            from match_here_append [OF True, of ?rest] front p1 show False
              by simp
          next
            case False
            then have "length ?new < length old" by simp
            from match_here_shorter [OF front this] p2 show False
              by simp
          qed
        next
          case (Suc j)
          with i have "j < length n" by simp
          then obtain x xs where d: "drop j n = x # xs" and x: "x \<in> set n"
            by (metis Cons_nth_drop_Suc nth_mem)
          from m Suc d old have "lower_char x = lower_char (CHR ''#'')"
            by (simp add: match_here_Cons)
          then have "x = CHR ''#''"
            by (simp add: lower_char_of_hash lower_char_hash)
          with x n show False by simp
        qed
      qed
    next
      case False
      with ne Cons have S: "?S content = c # ?S cs"
        by simp
      have "length cs < length content"
        using Cons by simp
      with "1.IH" have tail: "\<not> contains_ci old (?S cs)"
        by blast
      have "\<not> match_here old (c # ?S cs)"
      proof
        assume "match_here old (c # ?S cs)"
        with old have c: "lower_char c = lower_char (CHR ''#'')" and m: "match_here o' (?S cs)"
          by (simp_all add: match_here_Cons)
        from m have len: "length o' \<le> length (?S cs)"
          by (simp add: match_here_def)
        from match_here_no_hash [OF m o'] sub_scan_keeps_front [OF ne len]
        have "take (length o') (?S cs) = take (length o') cs"
          by simp
        with m len have "match_here o' cs"
          by (metis length_take match_here_def min.absorb2 min.cobounded1)
        with c old have "match_here old (c # cs)"
          by (simp add: match_here_Cons)
        with False show False by simp
      qed
      with S tail show ?thesis
        by simp
    qed
  qed
qed

text \<open>
  C4, as amended. For a pair with \<open>old\<close> not empty, different from \<open>current\<close>,
  no backslash in \<open>current\<close>, and whose line \<open>replacing old with current\<close>
  prints: when the content is \<open>pre @ m @ post\<close>, with \<open>m\<close> equal to \<open>old\<close> up
  to letter case and no occurrence of \<open>old\<close> beginning in \<open>pre\<close>, the result
  is \<open>pre\<close>, then \<open>current\<close>, then the result of the substitution on \<open>post\<close>.
  For a pair of colours neither of which is, up to letter case, a prefix of the
  other, the substitution returns, whatever the renderer, a result with no
  case-insensitive occurrence of \<open>old\<close>, on every content.
\<close>

theorem substitution_replaces_occurrences:
  "(old \<noteq> new \<and> old \<noteq> [] \<and> backslash \<notin> set new
      \<and> printable rich (Replacing old new)
      \<and> length m = length old \<and> lower m = lower old
      \<and> \<not> contains_ci old (pre @ butlast m) \<longrightarrow>
      (\<exists>rest. fst (apply_color_replacement rich post old new) = Inr rest
         \<and> fst (apply_color_replacement rich (pre @ m @ post) old new) = Inr (pre @ new @ rest)))
   \<and> (is_color old \<and> is_color new \<and> \<not> match_here old new \<and> \<not> match_here new old \<longrightarrow>
      (\<exists>result. fst (apply_color_replacement rich content old new) = Inr result
         \<and> \<not> contains_ci old result))"
proof (intro conjI impI)
  assume h: "old \<noteq> new \<and> old \<noteq> [] \<and> backslash \<notin> set new
      \<and> printable rich (Replacing old new)
      \<and> length m = length old \<and> lower m = lower old
      \<and> \<not> contains_ci old (pre @ butlast m)"
  then have "sub_scan old (map Literal new) (pre @ m @ post) =
      pre @ expand (map Literal new) m @ sub_scan old (map Literal new) post"
    by (intro sub_scan_first_occurrence) simp_all
  with h show "\<exists>rest. fst (apply_color_replacement rich post old new) = Inr rest
         \<and> fst (apply_color_replacement rich (pre @ m @ post) old new) = Inr (pre @ new @ rest)"
    by (simp add: apply_color_replacement_def re_sub_literal expand_literal)
next
  assume h: "is_color old \<and> is_color new \<and> \<not> match_here old new \<and> \<not> match_here new old"
  then obtain o' where old: "old = CHR ''#'' # o'" and o': "CHR ''#'' \<notin> set o'"
    by (auto elim: is_color_shape)
  from h obtain n where new: "new = CHR ''#'' # n" and n: "CHR ''#'' \<notin> set n"
    and bs: "backslash \<notin> set new"
    by (auto elim: is_color_shape)
  from h old have ne: "old \<noteq> new"
    by (auto simp: match_here_def)
  from h new have "\<not> match_here old (CHR ''#'' # n)" "\<not> match_here (CHR ''#'' # n) old"
    by simp_all
  from sub_scan_no_occurrence [OF old o' n this, of content] new
  have "\<not> contains_ci old (sub_scan old (map Literal new) content)"
    by simp
  moreover from h have "printable rich (Replacing old new)"
    by (simp add: printable_def is_color_no_bracket)
  ultimately show "\<exists>result. fst (apply_color_replacement rich content old new) = Inr result
         \<and> \<not> contains_ci old result"
    using ne bs by (simp add: apply_color_replacement_def re_sub_literal)
qed

theorem substitution_replaces_occurrences_witness:
  "''#abc'' \<noteq> ''#123456'' \<and> backslash \<notin> set ''#123456''
   \<and> printable accepting (Replacing ''#abc'' ''#123456'')
   \<and> lower ''#AbC'' = lower ''#abc''
   \<and> \<not> contains_ci ''#abc'' (''x '' @ butlast ''#AbC'')
   \<and> fst (apply_color_replacement accepting '' y #abc'' ''#abc'' ''#123456'') = Inr '' y #123456''
   \<and> fst (apply_color_replacement accepting (''x '' @ ''#AbC'' @ '' y #abc'') ''#abc'' ''#123456'') =
       Inr (''x '' @ ''#123456'' @ '' y #123456'')
   \<and> is_color ''#abc'' \<and> is_color ''#123456''
   \<and> \<not> match_here ''#abc'' ''#123456'' \<and> \<not> match_here ''#123456'' ''#abc''
   \<and> \<not> contains_ci ''#abc'' ''x #123456 y #123456''"
proof -
  have h1: "''#abc'' \<noteq> ''#123456'' \<and> ''#abc'' \<noteq> [] \<and> backslash \<notin> set ''#123456''
      \<and> printable accepting (Replacing ''#abc'' ''#123456'')
      \<and> length ''#AbC'' = length ''#abc'' \<and> lower ''#AbC'' = lower ''#abc''
      \<and> \<not> contains_ci ''#abc'' (''x '' @ butlast ''#AbC'')"
    by code_simp
  have h2: "is_color ''#abc'' \<and> is_color ''#123456''
      \<and> \<not> match_here ''#abc'' ''#123456'' \<and> \<not> match_here ''#123456'' ''#abc''"
    by code_simp
  have rest: "fst (apply_color_replacement accepting '' y #abc'' ''#abc'' ''#123456'') = Inr '' y #123456''"
    by code_simp
  have whole: "fst (apply_color_replacement accepting ''x #AbC y #abc'' ''#abc'' ''#123456'') =
      Inr ''x #123456 y #123456''"
    by code_simp
  note inst = substitution_replaces_occurrences
    [where old = "''#abc''" and new = "''#123456''" and m = "''#AbC''" and pre = "''x ''"
      and post = "'' y #abc''" and content = "''x #AbC y #abc''" and rich = accepting]
  from inst h1 rest
  have first: "fst (apply_color_replacement accepting (''x '' @ ''#AbC'' @ '' y #abc'') ''#abc'' ''#123456'') =
       Inr (''x '' @ ''#123456'' @ '' y #123456'')"
    by auto
  from inst h2 obtain result where
    "fst (apply_color_replacement accepting ''x #AbC y #abc'' ''#abc'' ''#123456'') = Inr result"
    "\<not> contains_ci ''#abc'' result"
    by blast
  with whole have none: "\<not> contains_ci ''#abc'' ''x #123456 y #123456''"
    by simp
  from h1 h2 rest first none show ?thesis
    by blast
qed

text \<open>
  C4 as stated fails. A pair that differs in letter case only leaves its own
  replacement, which is an occurrence of \<open>old\<close>; a replacement that is a prefix
  of \<open>old\<close> forms a new occurrence with the text after it; so does the empty
  replacement with the text on both sides.
\<close>

theorem substitution_can_leave_occurrences:
  "''#aaa'' \<noteq> ''#AAA''
   \<and> fst (apply_color_replacement accepting ''#aaa'' ''#aaa'' ''#AAA'') = Inr ''#AAA''
   \<and> contains_ci ''#aaa'' ''#AAA''
   \<and> ''#12'' \<noteq> ''#1''
   \<and> fst (apply_color_replacement accepting ''#122'' ''#12'' ''#1'') = Inr ''#12''
   \<and> contains_ci ''#12'' ''#12''
   \<and> ''ab'' \<noteq> []
   \<and> fst (apply_color_replacement accepting ''aabb'' ''ab'' []) = Inr ''ab''
   \<and> contains_ci ''ab'' ''ab''"
  by code_simp

end
